theory Spec2Isabelle
  imports Complex_Main "HOL-Library.Log_Nat"
begin

section \<open>The waveform player of src/components/waveform-player.tsx\<close>

text \<open>
  The component decodes an audio payload, draws its amplitude envelope as bars on a canvas,
  and, while playing, redraws the bars once per display frame with a progress colouring and
  a playhead.

  Amplitudes, lengths on the canvas and times are idealised as \<^typ>\<open>real\<close>: for them the
  rounding of IEEE doubles, NaN and the infinities are not modelled. The one computation
  whose rounding changes an integer result, the sample index at which a bar starts, is
  modelled in binary64. Loop counters and results of \<open>Math.floor\<close> are \<^typ>\<open>int\<close>.
  Values the component reads from the browser (the audio clock, the canvas rectangle, the
  device pixel ratio, the outcome of a call that may throw) are arguments of the model.
\<close>

subsection \<open>Time formatting\<close>

text \<open>
  \<open>Number.prototype.toString\<close> on an integral value: decimal digits, most significant
  first, with a minus sign for a negative value. (Beyond \<open>10^21\<close> JavaScript switches to
  exponent notation; no clock or buffer duration reaches that range.)
\<close>

definition digit_char :: "nat \<Rightarrow> char" where
  "digit_char d = ''0123456789'' ! d"

fun decimal :: "nat \<Rightarrow> string" where
  "decimal n = (if n < 10 then [digit_char n] else decimal (n div 10) @ [digit_char (n mod 10)])"

definition number_toString :: "int \<Rightarrow> string" where
  "number_toString k = (if k < 0 then CHR ''-'' # decimal (nat (- k)) else decimal (nat k))"

text \<open>\<open>String.prototype.padStart(targetLength, padString)\<close>.\<close>

definition padStart :: "nat \<Rightarrow> string \<Rightarrow> string \<Rightarrow> string" where
  "padStart targetLength padString s =
     (if targetLength \<le> length s \<or> padString = [] then s
      else take (targetLength - length s)
             (concat (replicate (targetLength - length s) padString)) @ s)"

text \<open>The remainder operator \<open>%\<close>: the quotient is truncated towards zero.\<close>

definition js_trunc :: "real \<Rightarrow> int" where
  "js_trunc x = (if x < 0 then \<lceil>x\<rceil> else \<lfloor>x\<rfloor>)"

definition js_rem :: "real \<Rightarrow> real \<Rightarrow> real" where
  "js_rem x y = x - y * of_int (js_trunc (x / y))"

definition formatTime :: "real \<Rightarrow> string" where
  "formatTime seconds =
     (let m = \<lfloor>seconds / 60\<rfloor>;
          s = \<lfloor>js_rem seconds 60\<rfloor>
      in number_toString m @ '':'' @ padStart 2 ''0'' (number_toString s))"

text \<open>Reading a digit string back, to say what number a rendered field denotes.\<close>

definition digit_value :: "char \<Rightarrow> nat" where
  "digit_value c = of_char c - 48"

definition decimal_value :: "string \<Rightarrow> nat" where
  "decimal_value cs = foldl (\<lambda>acc c. 10 * acc + digit_value c) 0 cs"

subsection \<open>Canvas calls\<close>

text \<open>
  The 2D context is modelled by the sequence of calls made on it since the bitmap was last
  reset. Assigning \<open>canvas.width\<close> or \<open>canvas.height\<close> resets the bitmap and the context
  state, so each draw starts from an empty sequence.
\<close>

datatype canvas_call =
    Scale real real
  | ClearRect real real real real
  | SetFillStyle string
  | BeginPath
  | RoundRect real real real real real
  | Fill

record canvas =
  has_context2d :: bool
  canvas_width :: real
  canvas_height :: real
  canvas_calls :: "canvas_call list"

text \<open>What one draw reads from the window and from \<open>getBoundingClientRect\<close>, the audio
  clock it reads, and whether a call to \<open>stop()\<close> made during the callback throws.\<close>

datatype dom_exception = InvalidStateError | EncodingError | InvalidCharacterError

record env =
  now :: real
  rect_width :: real
  rect_height :: real
  devicePixelRatio :: real
  stop_throws :: "dom_exception option"

record audio_buffer =
  channel0 :: "real list"
  buf_duration :: real

definition barWidth :: real where
  "barWidth = 2"

definition gap :: real where
  "gap = 3 / 2"

definition totalBarWidth :: real where
  "totalBarWidth = barWidth + gap"

definition barCount :: "real \<Rightarrow> int" where
  "barCount width = \<lfloor>width / totalBarWidth\<rfloor>"

definition neutral_style :: string where
  "neutral_style = ''oklch(0.708 0 0 / 0.3)''"

definition played_style :: string where
  "played_style = ''oklch(0.59 0.26 323)''"

text \<open>\<open>window.devicePixelRatio || 1\<close>\<close>

definition dpr_or_1 :: "env \<Rightarrow> real" where
  "dpr_or_1 e = (if devicePixelRatio e = 0 then 1 else devicePixelRatio e)"

text \<open>\<open>Math.abs(data[j])\<close>: a read outside the typed array is \<open>undefined\<close>, whose absolute
  value is NaN (\<open>None\<close>); every comparison with NaN is false.\<close>

definition sample_abs :: "real list \<Rightarrow> int \<Rightarrow> real option" where
  "sample_abs data j = (if 0 \<le> j \<and> j < int (length data) then Some \<bar>data ! nat j\<bar> else None)"

subsection \<open>The sample index, in binary64\<close>

text \<open>
  A bar starts at \<open>Math.floor((i / barCount) * data.length)\<close>. The quotient and the
  product are each rounded to the nearest binary64 number, ties to even, and the rounding
  can leave the product just below an integer that the exact value reaches.

  A non-negative binary64 number is a pair \<open>(m, e)\<close> standing for \<open>m * 2^e\<close>.
  \<open>binary64_of_ratio p q\<close> rounds the exact quotient \<open>p / q\<close> of two naturals: it scales
  the quotient into the range from \<open>2^52\<close> to \<open>2^53\<close> and rounds it to an integer of 53
  bits. The operands here are integers below \<open>2^53\<close> and every result is 0 or lies between
  \<open>2^-53\<close> and \<open>2^53\<close>, so subnormal numbers and overflow do not arise.
\<close>

type_synonym binary64 = "nat \<times> int"

definition round_half_even :: "nat \<Rightarrow> nat \<Rightarrow> nat" where
  "round_half_even p q =
     (let d = p div q; r = p mod q
      in if 2 * r < q then d
         else if q < 2 * r then d + 1
         else if even d then d else d + 1)"

definition binary64_of_ratio :: "nat \<Rightarrow> nat \<Rightarrow> binary64" where
  "binary64_of_ratio p q =
     (if p = 0 then (0, 0)
      else
        (let k = int (floorlog 2 p) - int (floorlog 2 q);
             e = (if q * 2 ^ nat k \<le> p * 2 ^ nat (- k) then k else k - 1);
             s = 52 - e
         in (round_half_even (p * 2 ^ nat s) (q * 2 ^ nat (- s)), - s)))"

definition binary64_value :: "binary64 \<Rightarrow> real" where
  "binary64_value x = of_nat (fst x) * 2 powi (snd x)"

text \<open>\<open>Math.floor\<close> of a binary64 number.\<close>

definition binary64_floor :: "binary64 \<Rightarrow> int" where
  "binary64_floor x =
     (if 0 \<le> snd x then int (fst x * 2 ^ nat (snd x)) else int (fst x div 2 ^ nat (- snd x)))"

text \<open>\<open>i / barCount\<close>. The loops evaluate it for \<open>0 \<le> i \<le> barCount\<close> with a positive
  bar count only, so a division by zero does not arise.\<close>

definition number_div :: "int \<Rightarrow> int \<Rightarrow> binary64" where
  "number_div i bc = binary64_of_ratio (nat i) (nat bc)"

text \<open>\<open>x * data.length\<close>: the exact product of \<open>m * 2^e\<close> and \<open>N\<close>, rounded.\<close>

definition number_times :: "binary64 \<Rightarrow> nat \<Rightarrow> binary64" where
  "number_times x N = binary64_of_ratio (fst x * N * 2 ^ nat (snd x)) (2 ^ nat (- snd x))"

text \<open>\<open>Math.floor((i / barCount) * data.length)\<close>\<close>

definition sample_index :: "int \<Rightarrow> int \<Rightarrow> nat \<Rightarrow> int" where
  "sample_index i bc N = binary64_floor (number_times (number_div i bc) N)"

subsection \<open>The static renderer (drawStaticWaveform)\<close>

function static_peak :: "real list \<Rightarrow> int \<Rightarrow> int \<Rightarrow> real \<Rightarrow> real" where
  "static_peak data j endj mx =
     (if j < endj
      then static_peak data (j + 1) endj
             (case sample_abs data j of
                None \<Rightarrow> mx
              | Some a \<Rightarrow> if a > mx then a else mx)
      else mx)"
  by pat_completeness auto
termination
  by (relation "measure (\<lambda>(data, j, endj, mx). nat (endj - j))") auto

definition static_bar :: "real list \<Rightarrow> real \<Rightarrow> int \<Rightarrow> int \<Rightarrow> canvas_call list" where
  "static_bar data height bc i =
     (let start = sample_index i bc (length data);
          endj = sample_index (i + 1) bc (length data);
          mx = static_peak data start endj 0;
          barHeight = max 2 (mx * height * (8 / 10));
          x = of_int i * totalBarWidth;
          y = (height - barHeight) / 2
      in [SetFillStyle neutral_style, BeginPath, RoundRect x y barWidth barHeight 1, Fill])"

function static_bars :: "real list \<Rightarrow> real \<Rightarrow> int \<Rightarrow> int \<Rightarrow> canvas_call list" where
  "static_bars data height bc i =
     (if i < bc then static_bar data height bc i @ static_bars data height bc (i + 1) else [])"
  by pat_completeness auto
termination
  by (relation "measure (\<lambda>(data, height, bc, i). nat (bc - i))") auto

text \<open>The calls of one static draw, after the bitmap reset. (The local \<open>step\<close> of the source
  is computed and never used.)\<close>

definition static_calls :: "env \<Rightarrow> audio_buffer \<Rightarrow> canvas_call list" where
  "static_calls e buffer =
     (let dpr = dpr_or_1 e;
          width = rect_width e;
          height = rect_height e;
          data = channel0 buffer
      in [Scale dpr dpr, ClearRect 0 0 width height]
         @ static_bars data height (barCount width) 0)"

subsection \<open>The live renderer's drawing (drawLiveWaveform, lines 187 to 232)\<close>

function live_peak :: "real list \<Rightarrow> int \<Rightarrow> int \<Rightarrow> real \<Rightarrow> real" where
  "live_peak channelData j endj mx =
     (if j < endj
      then live_peak channelData (j + 1) endj
             (case sample_abs channelData j of
                None \<Rightarrow> mx
              | Some a \<Rightarrow> if a > mx then a else mx)
      else mx)"
  by pat_completeness auto
termination
  by (relation "measure (\<lambda>(channelData, j, endj, mx). nat (endj - j))") auto

definition progress_of :: "real \<Rightarrow> real \<Rightarrow> real" where
  "progress_of duration elapsed = (if duration > 0 then elapsed / duration else 0)"

definition live_bar :: "real list \<Rightarrow> real \<Rightarrow> real \<Rightarrow> int \<Rightarrow> int \<Rightarrow> canvas_call list" where
  "live_bar channelData height progress bc i =
     (let start = sample_index i bc (length channelData);
          endj = sample_index (i + 1) bc (length channelData);
          mx = live_peak channelData start endj 0;
          barHeight = max 2 (mx * height * (8 / 10));
          x = of_int i * totalBarWidth;
          y = (height - barHeight) / 2;
          barProgress = of_int i / of_int bc
      in [SetFillStyle (if barProgress \<le> progress then played_style else neutral_style),
          BeginPath, RoundRect x y barWidth barHeight 1, Fill])"

function live_bars :: "real list \<Rightarrow> real \<Rightarrow> real \<Rightarrow> int \<Rightarrow> int \<Rightarrow> canvas_call list" where
  "live_bars channelData height progress bc i =
     (if i < bc
      then live_bar channelData height progress bc i
           @ live_bars channelData height progress bc (i + 1)
      else [])"
  by pat_completeness auto
termination
  by (relation "measure (\<lambda>(channelData, height, progress, bc, i). nat (bc - i))") auto

definition live_calls :: "env \<Rightarrow> audio_buffer option \<Rightarrow> real \<Rightarrow> real \<Rightarrow> canvas_call list" where
  "live_calls e buffer duration elapsed =
     (let dpr = dpr_or_1 e;
          width = rect_width e;
          height = rect_height e
      in [Scale dpr dpr, ClearRect 0 0 width height]
         @ (case buffer of
              None \<Rightarrow> []
            | Some b \<Rightarrow>
                (let channelData = channel0 b;
                     progress = progress_of duration elapsed;
                     playheadX = progress * width
                 in live_bars channelData height progress (barCount width) 0
                    @ [SetFillStyle played_style, BeginPath,
                       RoundRect (playheadX - 1) 0 2 height 1, Fill])))"

subsection \<open>What a sequence of canvas calls paints\<close>

text \<open>
  \<open>fill()\<close> paints every rectangle of the current path in the current fill style;
  \<open>beginPath()\<close> empties the path. The result lists the painted rectangles in order.
\<close>

record painted =
  fill_style :: string
  rect_x :: real
  rect_y :: real
  rect_w :: real
  rect_h :: real

fun fills_from :: "string \<Rightarrow> (real \<times> real \<times> real \<times> real) list \<Rightarrow> canvas_call list \<Rightarrow> painted list" where
  "fills_from st path [] = []"
| "fills_from st path (SetFillStyle s # cs) = fills_from s path cs"
| "fills_from st path (BeginPath # cs) = fills_from st [] cs"
| "fills_from st path (RoundRect x y w h r # cs) = fills_from st (path @ [(x, y, w, h)]) cs"
| "fills_from st path (Fill # cs) =
     map (\<lambda>(x, y, w, h). \<lparr>fill_style = st, rect_x = x, rect_y = y, rect_w = w, rect_h = h\<rparr>) path
     @ fills_from st path cs"
| "fills_from st path (Scale sx sy # cs) = fills_from st path cs"
| "fills_from st path (ClearRect x y w h # cs) = fills_from st path cs"

definition fills :: "canvas_call list \<Rightarrow> painted list" where
  "fills cs = fills_from ''#000000'' [] cs"

definition geometry :: "painted \<Rightarrow> real \<times> real \<times> real \<times> real" where
  "geometry b = (rect_x b, rect_y b, rect_w b, rect_h b)"

text \<open>The largest absolute amplitude among the samples with index from \<open>s\<close> up to, and
  not including, \<open>t\<close>; 0 when there is none.\<close>

definition range_peak :: "real list \<Rightarrow> int \<Rightarrow> int \<Rightarrow> real" where
  "range_peak data s t =
     (if {nat s ..< nat t} = {} then 0 else Max ((\<lambda>j. \<bar>data ! j\<bar>) ` {nat s ..< nat t}))"

text \<open>
  The bar sample in the words of the specification: the peak absolute amplitude among the
  samples whose index lies in the half-open range from \<open>floor(i/barCount * N)\<close> to
  \<open>floor((i+1)/barCount * N)\<close>, the floors taken of the exact values.
\<close>

definition bar_start :: "nat \<Rightarrow> int \<Rightarrow> int \<Rightarrow> int" where
  "bar_start N bc i = \<lfloor>(of_int i / of_int bc) * of_nat N :: real\<rfloor>"

definition BarSample :: "real list \<Rightarrow> int \<Rightarrow> int \<Rightarrow> real" where
  "BarSample data bc i =
     range_peak data (bar_start (length data) bc i) (bar_start (length data) bc (i + 1))"

subsection \<open>Component state\<close>

datatype context_state = Suspended | Running | Closed

record audio_context =
  ctx_state :: context_state

record analyser_node =
  fftSize :: nat

text \<open>
  A buffer source node. The component starts every node in the turn that creates it.
  \<open>Stopped\<close>: \<open>stop()\<close> was called while it played; \<open>Finished\<close>: the buffer played to
  its end. The browser keeps the node, and the handler assigned to \<open>onended\<close>, after the
  component has dropped its reference.
\<close>

datatype playback = Started | Stopped | Finished

record source_node =
  node_buffer :: audio_buffer
  playback :: playback
  onended_set :: bool
  ended_dispatched :: bool

datatype callback = OnPlayPause | OnEnded | OnDownload

text \<open>
  Props, refs and React state of one mounted player, the browser objects they refer to
  (\<open>nodes\<close>, addressed by index; the scheduled animation frames), and what an observer
  sees: the callbacks invoked on the owner, promise rejections nobody handles, and the
  values passed to \<open>setCurrentTime\<close>.
\<close>

record player =
  isPlaying :: bool
  canvasRef :: "canvas option"
  audioContextRef :: "audio_context option"
  analyserRef :: "analyser_node option"
  sourceRef :: "nat option"
  animationRef :: nat
  startTimeRef :: real
  audioBufferRef :: "audio_buffer option"
  duration :: real
  currentTime :: real
  nodes :: "source_node list"
  pending_frames :: "nat list"
  next_frame_id :: nat
  callbacks :: "callback list"
  unhandled_rejections :: "dom_exception list"
  reported_times :: "real list"

definition initial_player :: "bool \<Rightarrow> canvas option \<Rightarrow> player" where
  "initial_player playing cv =
     \<lparr>isPlaying = playing, canvasRef = cv, audioContextRef = None, analyserRef = None,
      sourceRef = None, animationRef = 0, startTimeRef = 0, audioBufferRef = None,
      duration = 0, currentTime = 0, nodes = [], pending_frames = [], next_frame_id = 1,
      callbacks = [], unhandled_rejections = [], reported_times = []\<rparr>"

definition setDuration :: "real \<Rightarrow> player \<Rightarrow> player" where
  "setDuration d p = p\<lparr>duration := d\<rparr>"

definition setCurrentTime :: "real \<Rightarrow> player \<Rightarrow> player" where
  "setCurrentTime t p = p\<lparr>currentTime := t, reported_times := reported_times p @ [t]\<rparr>"

text \<open>\<open>requestAnimationFrame\<close> hands out a fresh non-zero handle; \<open>cancelAnimationFrame\<close>
  of a handle that is not scheduled does nothing.\<close>

definition requestAnimationFrame :: "player \<Rightarrow> nat \<times> player" where
  "requestAnimationFrame p =
     (next_frame_id p,
      p\<lparr>pending_frames := pending_frames p @ [next_frame_id p],
        next_frame_id := Suc (next_frame_id p)\<rparr>)"

definition cancelAnimationFrame :: "nat \<Rightarrow> player \<Rightarrow> player" where
  "cancelAnimationFrame h p = p\<lparr>pending_frames := removeAll h (pending_frames p)\<rparr>"

subsection \<open>drawStaticWaveform and drawLiveWaveform\<close>

definition drawStaticWaveform :: "env \<Rightarrow> audio_buffer \<Rightarrow> player \<Rightarrow> player" where
  "drawStaticWaveform e buffer p =
     (case canvasRef p of
        None \<Rightarrow> p
      | Some cv \<Rightarrow>
          if \<not> has_context2d cv then p
          else p\<lparr>canvasRef := Some (cv\<lparr>canvas_width := rect_width e * dpr_or_1 e,
                                        canvas_height := rect_height e * dpr_or_1 e,
                                        canvas_calls := static_calls e buffer\<rparr>)\<rparr>)"

text \<open>
  The frame callback. The frequency data it fetches from the analyser is written to a
  local array that is never read. \<open>duration\<close> is the React state of the render whose
  effect started the loop.
\<close>

definition drawLiveWaveform :: "env \<Rightarrow> player \<Rightarrow> player" where
  "drawLiveWaveform e p =
     (case (canvasRef p, analyserRef p, audioContextRef p) of
        (Some cv, Some analyser, Some ctx) \<Rightarrow>
          if \<not> has_context2d cv then p
          else
            (let elapsed = now e - startTimeRef p;
                 p1 = setCurrentTime elapsed p;
                 p2 = p1\<lparr>canvasRef :=
                        Some (cv\<lparr>canvas_width := rect_width e * dpr_or_1 e,
                                 canvas_height := rect_height e * dpr_or_1 e,
                                 canvas_calls :=
                                   live_calls e (audioBufferRef p) (duration p) elapsed\<rparr>)\<rparr>;
                 (h, p3) = requestAnimationFrame p2
             in p3\<lparr>animationRef := h\<rparr>)
      | _ \<Rightarrow> p)"

subsection \<open>startPlayback, stopPlayback and the ended handler\<close>

definition startPlayback :: "env \<Rightarrow> player \<Rightarrow> player" where
  "startPlayback e p =
     (case (audioContextRef p, audioBufferRef p) of
        (Some ctx, Some buffer) \<Rightarrow>
          (let ctx1 = (if ctx_state ctx = Suspended then ctx\<lparr>ctx_state := Running\<rparr> else ctx);
               analyser = \<lparr>fftSize = 256\<rparr>;
               source = \<lparr>node_buffer = buffer, playback = Started, onended_set = True,
                         ended_dispatched = False\<rparr>
           in drawLiveWaveform e
                (p\<lparr>audioContextRef := Some ctx1,
                   analyserRef := Some analyser,
                   sourceRef := Some (length (nodes p)),
                   nodes := nodes p @ [source],
                   startTimeRef := now e\<rparr>))
      | _ \<Rightarrow> p)"

text \<open>\<open>source.stop()\<close>: it throws when the browser says so (\<open>stop_throws\<close>); otherwise a
  playing node stops.\<close>

definition source_stop :: "env \<Rightarrow> nat \<Rightarrow> source_node list \<Rightarrow> dom_exception + source_node list" where
  "source_stop e k ns =
     (case stop_throws e of
        Some x \<Rightarrow> Inl x
      | None \<Rightarrow>
          Inr (ns[k := (if playback (ns ! k) = Started then (ns ! k)\<lparr>playback := Stopped\<rparr>
                        else ns ! k)]))"

text \<open>The result is a sum so that an exception leaving the function would show as \<open>Inl\<close>.
  The one call that can throw stands inside \<open>try\<close>/\<open>catch\<close>.\<close>

definition stopPlayback :: "env \<Rightarrow> player \<Rightarrow> dom_exception + player" where
  "stopPlayback e p =
     (let p1 = cancelAnimationFrame (animationRef p) p;
          p2 = (case sourceRef p1 of
                  None \<Rightarrow> p1
                | Some k \<Rightarrow>
                    (case source_stop e k (nodes p1) of
                       Inl x \<Rightarrow> p1
                     | Inr ns \<Rightarrow> p1\<lparr>nodes := ns\<rparr>)\<lparr>sourceRef := None\<rparr>)
      in Inr (case audioBufferRef p2 of
                None \<Rightarrow> p2
              | Some buffer \<Rightarrow> drawStaticWaveform e buffer p2))"

text \<open>The handler assigned to \<open>source.onended\<close> in startPlayback.\<close>

definition ended_handler :: "player \<Rightarrow> player" where
  "ended_handler p = setCurrentTime 0 (p\<lparr>callbacks := callbacks p @ [OnEnded]\<rparr>)"

text \<open>The effect on \<open>[isPlaying]\<close>, and a render with a new value of the prop: the effect
  runs only when the value changed.\<close>

definition isPlaying_effect :: "env \<Rightarrow> player \<Rightarrow> dom_exception + player" where
  "isPlaying_effect e p = (if isPlaying p then Inr (startPlayback e p) else stopPlayback e p)"

definition set_isPlaying :: "bool \<Rightarrow> env \<Rightarrow> player \<Rightarrow> dom_exception + player" where
  "set_isPlaying b e p = (if isPlaying p = b then Inr p else isPlaying_effect e (p\<lparr>isPlaying := b\<rparr>))"

subsection \<open>The decode effect\<close>

text \<open>
  The effect on \<open>[audioBase64]\<close> creates the audio context, converts the payload with
  \<open>atob\<close> (which throws on a string that is not base64) and starts decoding. The promise
  of \<open>decodeAudioData\<close> settles in a later turn; \<open>then\<close> is given a fulfilment callback
  only, so a rejection reaches a promise without any handler.
\<close>

definition decode_effect :: "context_state \<Rightarrow> dom_exception + string \<Rightarrow> player \<Rightarrow> dom_exception + player" where
  "decode_effect initial atob_result p =
     (let p1 = p\<lparr>audioContextRef := Some \<lparr>ctx_state = initial\<rparr>\<rparr>
      in case atob_result of
           Inl x \<Rightarrow> Inl x
         | Inr byteChars \<Rightarrow> Inr p1)"

datatype decode_outcome = Decoded audio_buffer | DecodeRejected dom_exception

definition decode_settled :: "env \<Rightarrow> decode_outcome \<Rightarrow> player \<Rightarrow> player" where
  "decode_settled e outcome p =
     (case outcome of
        Decoded buffer \<Rightarrow>
          drawStaticWaveform e buffer
            (setDuration (buf_duration buffer) (p\<lparr>audioBufferRef := Some buffer\<rparr>))
      | DecodeRejected x \<Rightarrow> p\<lparr>unhandled_rejections := unhandled_rejections p @ [x]\<rparr>)"

definition decode_cleanup :: "player \<Rightarrow> player" where
  "decode_cleanup p =
     (let p1 = cancelAnimationFrame (animationRef p) p
      in p1\<lparr>audioContextRef := map_option (\<lambda>ctx. ctx\<lparr>ctx_state := Closed\<rparr>) (audioContextRef p1)\<rparr>)"

subsection \<open>Events of the audio clock\<close>

text \<open>
  Web Audio dispatches \<open>ended\<close> to a buffer source once it has stopped playing, because
  the buffer played to its end or because \<open>stop()\<close> was called; the event is dispatched
  once per node, in a turn of its own.
\<close>

definition buffer_played_out :: "nat \<Rightarrow> player \<Rightarrow> player" where
  "buffer_played_out k p =
     p\<lparr>nodes := (nodes p)[k := (if playback (nodes p ! k) = Started
                               then (nodes p ! k)\<lparr>playback := Finished\<rparr>
                               else nodes p ! k)]\<rparr>"

definition dispatch_ended :: "nat \<Rightarrow> player \<Rightarrow> player" where
  "dispatch_ended k p =
     (if k < length (nodes p) \<and> playback (nodes p ! k) \<noteq> Started
         \<and> \<not> ended_dispatched (nodes p ! k)
      then (let p1 = p\<lparr>nodes := (nodes p)[k := (nodes p ! k)\<lparr>ended_dispatched := True\<rparr>]\<rparr>
            in if onended_set (nodes p ! k) then ended_handler p1 else p1)
      else p)"

text \<open>Successive frames of one session.\<close>

fun run_frames :: "env list \<Rightarrow> player \<Rightarrow> player" where
  "run_frames [] p = p"
| "run_frames (e # es) p = run_frames es (drawLiveWaveform e p)"

text \<open>The transport state of the specification: Playing while the owner's flag is set and
  a source is attached, Idle otherwise.\<close>

datatype transport = Idle | Playing

definition transport_state :: "player \<Rightarrow> transport" where
  "transport_state p = (if isPlaying p \<and> sourceRef p \<noteq> None then Playing else Idle)"

text \<open>The guard at the head of drawLiveWaveform: canvas, analyser and audio context are
  present and the canvas yields a 2D context.\<close>

definition can_draw_live :: "player \<Rightarrow> bool" where
  "can_draw_live p =
     (case (canvasRef p, analyserRef p, audioContextRef p) of
        (Some cv, Some analyser, Some ctx) \<Rightarrow> has_context2d cv
      | _ \<Rightarrow> False)"

subsection \<open>A sample run\<close>

definition sample_buffer :: audio_buffer where
  "sample_buffer = \<lparr>channel0 = [0, 1 / 2, - 1, 1 / 4], buf_duration = 1\<rparr>"

definition sample_canvas :: canvas where
  "sample_canvas = \<lparr>has_context2d = True, canvas_width = 300, canvas_height = 150, canvas_calls = []\<rparr>"

definition sample_env :: "real \<Rightarrow> env" where
  "sample_env t = \<lparr>now = t, rect_width = 7, rect_height = 10, devicePixelRatio = 1, stop_throws = None\<rparr>"

text \<open>A surface 77 wide, which holds 22 bars, and a buffer of 22 samples that are silent
  but for sample 14.\<close>

definition wide_env :: env where
  "wide_env = \<lparr>now = 0, rect_width = 77, rect_height = 10, devicePixelRatio = 1, stop_throws = None\<rparr>"

definition click_buffer :: audio_buffer where
  "click_buffer =
     \<lparr>channel0 = [0, 0, 0, 0, 0, 0, 0, 0, 0, 0, 0, 0, 0, 0, 1, 0, 0, 0, 0, 0, 0, 0],
      buf_duration = 1\<rparr>"

text \<open>Mounting runs both effects: the decode effect, here on the empty payload, and the
  effect on \<open>isPlaying\<close>, here with the flag unset.\<close>

definition sample_mounted :: player where
  "sample_mounted =
     projr (isPlaying_effect (sample_env 0)
       (projr (decode_effect Running (Inr []) (initial_player False (Some sample_canvas)))))"

definition sample_decoded :: player where
  "sample_decoded = decode_settled (sample_env 0) (Decoded sample_buffer) sample_mounted"

definition sample_playing :: player where
  "sample_playing = projr (set_isPlaying True (sample_env 0) sample_decoded)"

definition sample_paused :: player where
  "sample_paused = projr (set_isPlaying False (sample_env (1 / 2)) sample_playing)"

section \<open>Properties of the renderers\<close>

subsection \<open>The loops\<close>

declare static_peak.simps [simp del] live_peak.simps [simp del]
  static_bars.simps [simp del] live_bars.simps [simp del]

lemma Max_insert_max:
  fixes a b :: real
  assumes "finite S"
  shows "Max (insert (max a b) S) = Max (insert a (insert b S))"
proof (cases "S = {}")
  case True
  then show ?thesis by simp
next
  case False
  then show ?thesis using assms by (simp add: max.assoc)
qed

lemma static_peak_Max:
  "0 \<le> j \<Longrightarrow> endj \<le> int (length data) \<Longrightarrow>
   static_peak data j endj mx = Max (insert mx ((\<lambda>k. \<bar>data ! k\<bar>) ` {nat j ..< nat endj}))"
proof (induction data j endj mx rule: static_peak.induct)
  case (1 data j endj mx)
  show ?case
  proof (cases "j < endj")
    case False
    then have "{nat j ..< nat endj} = {}" by auto
    with False show ?thesis by (subst static_peak.simps) simp
  next
    case True
    let ?f = "\<lambda>k. \<bar>data ! k\<bar>"
    let ?a = "\<bar>data ! nat j\<bar>"
    have sa: "sample_abs data j = Some ?a"
      using True 1(2,3) by (simp add: sample_abs_def)
    let ?mx' = "if ?a > mx then ?a else mx"
    have ih: "static_peak data (j + 1) endj ?mx' = Max (insert ?mx' (?f ` {nat (j + 1) ..< nat endj}))"
      using 1(1)[OF True] 1(2,3) sa by simp
    have rng: "{nat j ..< nat endj} = insert (nat j) {nat (j + 1) ..< nat endj}"
      using True 1(2) by auto
    have "static_peak data j endj mx = static_peak data (j + 1) endj ?mx'"
      using True sa by (subst static_peak.simps) simp
    also have "\<dots> = Max (insert ?mx' (?f ` {nat (j + 1) ..< nat endj}))" by (rule ih)
    also have "\<dots> = Max (insert mx (?f ` {nat j ..< nat endj}))"
    proof -
      have fin: "finite (?f ` {nat (j + 1) ..< nat endj})" by simp
      have mx': "?mx' = max mx ?a" by (simp add: max_def)
      have "Max (insert ?mx' (?f ` {nat (j + 1) ..< nat endj}))
            = Max (insert mx (insert ?a (?f ` {nat (j + 1) ..< nat endj})))"
        using Max_insert_max[OF fin, of mx ?a] by (simp only: mx')
      then show ?thesis by (simp only: rng image_insert)
    qed
    finally show ?thesis .
  qed
qed

lemma live_peak_static_peak: "live_peak data j endj mx = static_peak data j endj mx"
proof (induction data j endj mx rule: static_peak.induct)
  case (1 data j endj mx)
  show ?case
  proof (cases "j < endj")
    case True
    then show ?thesis
      using 1[OF True] by (subst live_peak.simps, subst static_peak.simps) simp
  next
    case False
    then show ?thesis by (subst live_peak.simps, subst static_peak.simps) simp
  qed
qed

lemma bar_range:
  fixes i bc :: int and n :: nat
  assumes "0 \<le> i" "i < bc"
  shows "0 \<le> \<lfloor>(of_int i / of_int bc) * of_nat n :: real\<rfloor>"
    and "\<lfloor>(of_int i / of_int bc) * of_nat n :: real\<rfloor> \<le> \<lfloor>(of_int (i + 1) / of_int bc) * of_nat n :: real\<rfloor>"
    and "\<lfloor>(of_int (i + 1) / of_int bc) * of_nat n :: real\<rfloor> \<le> int n"
proof -
  have bc: "0 < (of_int bc :: real)" using assms by simp
  have "0 \<le> (of_int i / of_int bc) * (of_nat n :: real)"
    using assms by (intro mult_nonneg_nonneg divide_nonneg_nonneg) auto
  then show "0 \<le> \<lfloor>(of_int i / of_int bc) * of_nat n :: real\<rfloor>" by simp
  have "(of_int i / of_int bc :: real) \<le> of_int (i + 1) / of_int bc"
    using bc by (simp add: divide_right_mono)
  then have "(of_int i / of_int bc) * of_nat n \<le> (of_int (i + 1) / of_int bc) * (of_nat n :: real)"
    by (rule mult_right_mono) simp
  then show "\<lfloor>(of_int i / of_int bc) * of_nat n :: real\<rfloor> \<le> \<lfloor>(of_int (i + 1) / of_int bc) * of_nat n :: real\<rfloor>"
    by (rule floor_mono)
  have "(of_int (i + 1) / of_int bc :: real) \<le> 1" using assms bc by simp
  then have "(of_int (i + 1) / of_int bc) * of_nat n \<le> 1 * (of_nat n :: real)"
    by (rule mult_right_mono) simp
  then have "\<lfloor>(of_int (i + 1) / of_int bc) * of_nat n :: real\<rfloor> \<le> \<lfloor>of_nat n :: real\<rfloor>"
    using floor_mono by fastforce
  then show "\<lfloor>(of_int (i + 1) / of_int bc) * of_nat n :: real\<rfloor> \<le> int n" by simp
qed


lemma static_bars_upto:
  "static_bars data h bc i = concat (map (static_bar data h bc) [i..bc - 1])"
proof (induction data h bc i rule: static_bars.induct)
  case (1 data h bc i)
  show ?case
  proof (cases "i < bc")
    case True
    then have "[i..bc - 1] = i # [i + 1..bc - 1]" by (simp add: upto_rec1)
    with True 1[OF True] show ?thesis by (subst static_bars.simps) simp
  next
    case False
    then show ?thesis by (subst static_bars.simps) simp
  qed
qed

lemma live_bars_upto:
  "live_bars data h pr bc i = concat (map (live_bar data h pr bc) [i..bc - 1])"
proof (induction data h pr bc i rule: live_bars.induct)
  case (1 data h pr bc i)
  show ?case
  proof (cases "i < bc")
    case True
    then have "[i..bc - 1] = i # [i + 1..bc - 1]" by (simp add: upto_rec1)
    with True 1[OF True] show ?thesis by (subst live_bars.simps) simp
  next
    case False
    then show ?thesis by (subst live_bars.simps) simp
  qed
qed

lemma fills_from_blocks:
  assumes blk: "\<And>i. blk i = [SetFillStyle (c i), BeginPath, RoundRect (x i) (y i) (w i) (h i) (r i), Fill]"
  shows "fills_from st path (concat (map blk js))
         = map (\<lambda>i. \<lparr>fill_style = c i, rect_x = x i, rect_y = y i, rect_w = w i, rect_h = h i\<rparr>) js"
  by (induction js arbitrary: st path) (simp_all add: blk)

lemma fills_from_blocks_then:
  assumes blk: "\<And>i. blk i = [SetFillStyle (c i), BeginPath, RoundRect (x i) (y i) (w i) (h i) (r i), Fill]"
  shows "fills_from st path (concat (map blk js) @ SetFillStyle s # BeginPath # rest)
         = map (\<lambda>i. \<lparr>fill_style = c i, rect_x = x i, rect_y = y i, rect_w = w i, rect_h = h i\<rparr>) js
           @ fills_from s [] rest"
  by (induction js arbitrary: st path) (simp_all add: blk)

subsection \<open>What the two draws paint\<close>

subsection \<open>The binary64 sample index\<close>

lemma round_half_even_error:
  assumes "0 < q"
  shows "\<bar>real (round_half_even p q) - real p / real q\<bar> \<le> 1 / 2"
proof -
  define d r where "d = p div q" and "r = p mod q"
  have p: "p = d * q + r" by (simp add: d_def r_def)
  have rq: "r < q" using assms by (simp add: r_def)
  have q0: "0 < real q" using assms by simp
  have frac: "real p / real q = real d + real r / real q"
    using q0 by (simp add: p field_simps)
  have rhe: "round_half_even p q =
      (if 2 * r < q then d else if q < 2 * r then d + 1 else if even d then d else d + 1)"
    by (simp add: round_half_even_def Let_def d_def r_def)
  consider "2 * r < q" | "q < 2 * r" | "2 * r = q" by linarith
  then show ?thesis
  proof cases
    case 1
    then have "real r / real q \<le> 1 / 2" using q0 by (simp add: field_simps)
    moreover have "0 \<le> real r / real q" by simp
    ultimately show ?thesis using 1 by (simp add: rhe frac)
  next
    case 2
    then have "1 / 2 \<le> real r / real q" using q0 by (simp add: field_simps)
    moreover have "real r / real q \<le> 1" using rq q0 by (simp add: field_simps)
    ultimately show ?thesis using 2 by (simp add: rhe frac)
  next
    case 3
    then have "real (2 * r) = real q" by simp
    then have "2 * real r = real q" by simp
    then have "real r / real q = 1 / 2" using q0 by (simp add: field_simps)
    then show ?thesis using 3 by (simp add: rhe frac)
  qed
qed

lemma pow2_ratio: "(2::real) ^ nat s / 2 ^ nat (- s) = 2 powi s"
  by (cases "0 \<le> s") (simp_all add: power_int_def inverse_eq_divide power_one_over)

lemma binary64_exponent_le:
  assumes "0 < p" and "0 < q"
  defines "k \<equiv> int (floorlog 2 p) - int (floorlog 2 q)"
  defines "e \<equiv> (if q * 2 ^ nat k \<le> p * 2 ^ nat (- k) then k else k - 1)"
  shows "2 powi e \<le> real p / real q"
proof (cases "q * 2 ^ nat k \<le> p * 2 ^ nat (- k)")
  case True
  then have "real (q * 2 ^ nat k) \<le> real (p * 2 ^ nat (- k))"
    by (rule of_nat_mono)
  then have "real q * 2 ^ nat k \<le> real p * 2 ^ nat (- k)"
    by simp
  then have "2 ^ nat k / 2 ^ nat (- k) \<le> real p / real q"
    using assms(2) by (simp add: field_simps)
  then show ?thesis using True by (simp add: e_def pow2_ratio)
next
  case False
  have bp: "2 ^ (floorlog 2 p - 1) \<le> p" using floorlog_bounds[of p 2] assms(1) by simp
  have bq: "q < 2 ^ floorlog 2 q" using floorlog_bounds[of q 2] assms(2) by simp
  have bp': "(2::real) ^ (floorlog 2 p - 1) \<le> real p"
    using of_nat_mono[OF bp, where 'a = real] by simp
  have bq': "real q \<le> 2 ^ floorlog 2 q"
    using of_nat_mono[OF less_imp_le[OF bq], where 'a = real] by simp
  have fp: "1 \<le> floorlog 2 p" using assms(1) by (simp add: floorlog_def)
  have "2 powi (k - 1) = (2::real) ^ (floorlog 2 p - 1) / 2 ^ floorlog 2 q"
  proof -
    have "k - 1 = int (floorlog 2 p - 1) - int (floorlog 2 q)" using fp by (simp add: k_def)
    then show ?thesis by (simp add: power_int_diff)
  qed
  also have "\<dots> \<le> real p / 2 ^ floorlog 2 q"
    using bp' by (simp add: divide_right_mono)
  also have "\<dots> \<le> real p / real q"
    using bq' assms(2) by (simp add: frac_le)
  finally show ?thesis using False by (simp add: e_def)
qed

lemma binary64_exponent_gt:
  assumes "0 < p" and "0 < q"
  defines "k \<equiv> int (floorlog 2 p) - int (floorlog 2 q)"
  defines "e \<equiv> (if q * 2 ^ nat k \<le> p * 2 ^ nat (- k) then k else k - 1)"
  shows "real p / real q < 2 powi (e + 1)"
proof (cases "q * 2 ^ nat k \<le> p * 2 ^ nat (- k)")
  case False
  then have "p * 2 ^ nat (- k) < q * 2 ^ nat k" by simp
  then have "real (p * 2 ^ nat (- k)) < real (q * 2 ^ nat k)"
    by (simp only: of_nat_less_iff)
  then have "real p * 2 ^ nat (- k) < real q * 2 ^ nat k" by simp
  then have "real p / real q < 2 ^ nat k / 2 ^ nat (- k)"
    using assms(2) by (simp add: field_simps)
  then show ?thesis using False by (simp add: e_def pow2_ratio)
next
  case True
  have bp: "p < 2 ^ floorlog 2 p" using floorlog_bounds[of p 2] assms(1) by simp
  have bq: "2 ^ (floorlog 2 q - 1) \<le> q" using floorlog_bounds[of q 2] assms(2) by simp
  have fq: "1 \<le> floorlog 2 q" using assms(2) by (simp add: floorlog_def)
  have bp': "real p < 2 ^ floorlog 2 p"
    using of_nat_less_iff[of p "2 ^ floorlog 2 p", where 'a = real] bp by simp
  have bq': "(2::real) ^ (floorlog 2 q - 1) \<le> real q"
    using of_nat_mono[OF bq, where 'a = real] by simp
  have q0: "0 < real q" using assms(2) by simp
  have "real p / real q < 2 ^ floorlog 2 p / real q"
    using bp' q0 by (simp add: divide_strict_right_mono)
  also have "\<dots> \<le> 2 ^ floorlog 2 p / 2 ^ (floorlog 2 q - 1)"
    using bq' by (simp add: frac_le)
  also have "\<dots> = 2 powi (k + 1)"
  proof -
    have "k + 1 = int (floorlog 2 p) - int (floorlog 2 q - 1)" using fq by (simp add: k_def)
    then show ?thesis by (simp add: power_int_diff)
  qed
  finally show ?thesis using True by (simp add: e_def)
qed

lemma binary64_value_zero: "binary64_value (binary64_of_ratio 0 q) = 0"
  by (simp add: binary64_of_ratio_def binary64_value_def)

lemma binary64_of_ratio_error:
  assumes "0 < q"
  shows "\<bar>binary64_value (binary64_of_ratio p q) - real p / real q\<bar> \<le> (real p / real q) / 2 ^ 53"
proof (cases "p = 0")
  case True
  then show ?thesis by (simp add: binary64_value_zero)
next
  case False
  then have p0: "0 < p" by simp
  define k where "k = int (floorlog 2 p) - int (floorlog 2 q)"
  define e where "e = (if q * 2 ^ nat k \<le> p * 2 ^ nat (- k) then k else k - 1)"
  define s where "s = 52 - e"
  define m where "m = round_half_even (p * 2 ^ nat s) (q * 2 ^ nat (- s))"
  have r: "binary64_of_ratio p q = (m, - s)"
    using False by (simp add: binary64_of_ratio_def Let_def m_def s_def e_def k_def)
  have elow: "2 powi e \<le> real p / real q"
    unfolding e_def k_def using p0 assms by (rule binary64_exponent_le)
  have Q0: "0 < q * 2 ^ nat (- s)" using assms by simp
  have "\<bar>real m - real (p * 2 ^ nat s) / real (q * 2 ^ nat (- s))\<bar> \<le> 1 / 2"
    unfolding m_def using Q0 by (rule round_half_even_error)
  moreover have "real (p * 2 ^ nat s) / real (q * 2 ^ nat (- s)) = (real p / real q) * 2 powi s"
    by (simp add: pow2_ratio[symmetric])
  ultimately have me: "\<bar>real m - (real p / real q) * 2 powi s\<bar> \<le> 1 / 2" by simp
  define t :: real where "t = 2 powi (- s)"
  have pos: "0 < t" by (simp add: t_def)
  have inv: "2 powi s * t = 1"
    by (simp add: t_def power_int_minus)
  have tle: "t \<le> (real p / real q) / 2 ^ 52"
  proof -
    have "- s = e - 52" by (simp add: s_def)
    then have "t = 2 powi e / 2 ^ 52" by (simp add: t_def power_int_diff)
    then show ?thesis using elow by (simp add: divide_right_mono)
  qed
  have "real m * t - real p / real q = (real m - (real p / real q) * 2 powi s) * t"
    using inv by (simp add: algebra_simps)
  then have "\<bar>real m * t - real p / real q\<bar> = \<bar>real m - (real p / real q) * 2 powi s\<bar> * t"
    using pos by (simp add: abs_mult)
  also have "\<dots> \<le> (1 / 2) * t"
    using me pos by (simp add: mult_right_mono)
  also have "\<dots> \<le> (1 / 2) * ((real p / real q) / 2 ^ 52)"
    using tle by simp
  also have "\<dots> = (real p / real q) / 2 ^ 53" by simp
  finally have "\<bar>real m * t - real p / real q\<bar> \<le> (real p / real q) / 2 ^ 53" .
  then show ?thesis by (simp add: r binary64_value_def t_def)
qed

lemma binary64_value_nonneg: "0 \<le> binary64_value x"
  by (simp add: binary64_value_def)

lemma binary64_floor_value: "binary64_floor x = \<lfloor>binary64_value x\<rfloor>"
proof (cases "0 \<le> snd x")
  case True
  define n where "n = fst x * 2 ^ nat (snd x)"
  have "binary64_value x = real n"
    using True by (simp add: binary64_value_def power_int_def n_def)
  then have "\<lfloor>binary64_value x\<rfloor> = int n" by (simp only: floor_of_nat)
  then show ?thesis using True by (simp only: binary64_floor_def n_def if_True)
next
  case False
  define d :: nat where "d = 2 ^ nat (- snd x)"
  have "(2::real) powi snd x = inverse (2 ^ nat (- snd x))"
    using False by (simp add: power_int_def power_one_over inverse_eq_divide)
  then have "(2::real) powi snd x = 1 / real d"
    by (simp add: d_def inverse_eq_divide)
  then have "binary64_value x = real (fst x) / real d"
    by (simp add: binary64_value_def)
  then have "\<lfloor>binary64_value x\<rfloor> = int (fst x div d)"
    by (simp only: floor_divide_of_nat_eq)
  then show ?thesis using False by (simp only: binary64_floor_def d_def if_False)
qed

lemma number_times_error:
  "\<bar>binary64_value (number_times x N) - binary64_value x * real N\<bar>
     \<le> (binary64_value x * real N) / 2 ^ 53"
proof -
  have q: "0 < (2::nat) ^ nat (- snd x)" by simp
  have "real (fst x * N * 2 ^ nat (snd x)) / real (2 ^ nat (- snd x))
        = binary64_value x * real N"
    by (simp add: binary64_value_def pow2_ratio[symmetric])
  then show ?thesis
    using binary64_of_ratio_error[OF q, of "fst x * N * 2 ^ nat (snd x)"]
    by (simp add: number_times_def)
qed

lemma number_div_error:
  assumes "0 \<le> i" and "0 < bc"
  shows "\<bar>binary64_value (number_div i bc) - real_of_int i / real_of_int bc\<bar>
           \<le> (real_of_int i / real_of_int bc) / 2 ^ 53"
proof -
  have q: "0 < nat bc" using assms(2) by simp
  have "real (nat i) / real (nat bc) = real_of_int i / real_of_int bc"
    using assms by simp
  then show ?thesis
    using binary64_of_ratio_error[OF q, of "nat i"] by (simp add: number_div_def)
qed

lemma sample_index_value_close:
  assumes "0 \<le> i" and "i \<le> bc" and "0 < bc"
  shows "\<bar>binary64_value (number_times (number_div i bc) N)
          - real_of_int i * real N / real_of_int bc\<bar> \<le> real N / 2 ^ 51"
proof -
  define v where "v = real_of_int i * real N / real_of_int bc"
  define u :: real where "u = 1 / 2 ^ 53"
  define x1 where "x1 = binary64_value (number_div i bc)"
  define x2 where "x2 = binary64_value (number_times (number_div i bc) N)"
  define w where "w = real_of_int i / real_of_int bc"
  have w0: "0 \<le> w" and w1: "w \<le> 1" using assms(1,2,3) by (simp_all add: w_def)
  have u0: "0 \<le> u" and u1: "u \<le> 1" by (simp_all add: u_def)
  have e1: "\<bar>x1 - w\<bar> \<le> w * u"
    using number_div_error[OF assms(1,3)] by (simp add: x1_def w_def u_def)
  have e2: "\<bar>x2 - x1 * real N\<bar> \<le> x1 * real N * u"
    using number_times_error[of "number_div i bc" N] by (simp add: x1_def x2_def u_def)
  have x1le: "x1 \<le> 2 * w"
  proof -
    have "x1 \<le> w + w * u" using e1 by linarith
    also have "\<dots> \<le> w + w * 1" using w0 u1 by (intro add_left_mono mult_left_mono) 
    finally show ?thesis by simp
  qed
  have x10: "0 \<le> x1" by (simp add: x1_def binary64_value_nonneg)
  have v: "v = w * real N" by (simp add: v_def w_def)
  have "\<bar>x2 - v\<bar> \<le> \<bar>x2 - x1 * real N\<bar> + \<bar>x1 * real N - w * real N\<bar>"
    unfolding v by linarith
  also have "\<bar>x1 * real N - w * real N\<bar> = \<bar>x1 - w\<bar> * real N"
    by (simp add: abs_mult flip: left_diff_distrib)
  also have "\<bar>x2 - x1 * real N\<bar> + \<bar>x1 - w\<bar> * real N \<le> x1 * real N * u + (w * u) * real N"
    using e1 e2 by (intro add_mono mult_right_mono) simp_all
  also have "\<dots> \<le> (2 * w) * real N * u + (w * u) * real N"
    using x1le u0 by (intro add_right_mono mult_right_mono) simp_all
  also have "\<dots> = 3 * u * (w * real N)" by (simp add: algebra_simps)
  also have "\<dots> \<le> 3 * u * (1 * real N)"
    using w1 u0 by (intro mult_left_mono mult_right_mono) simp_all
  also have "\<dots> \<le> real N / 2 ^ 51" by (simp add: u_def)
  finally show ?thesis by (simp add: x2_def v_def)
qed

lemma sample_index_close:
  assumes "0 \<le> i" and "i \<le> bc" and "0 < bc" and "int N * bc < 2 ^ 51"
  shows "(i * int N) div bc - 1 \<le> sample_index i bc N"
    and "sample_index i bc N \<le> (i * int N) div bc"
    and "(i * int N) mod bc \<noteq> 0 \<Longrightarrow> sample_index i bc N = (i * int N) div bc"
proof -
  define x2 where "x2 = binary64_value (number_times (number_div i bc) N)"
  define v where "v = real_of_int i * real N / real_of_int bc"
  define d where "d = (i * int N) div bc"
  define r where "r = (i * int N) mod bc"
  have si: "sample_index i bc N = \<lfloor>x2\<rfloor>"
    by (simp add: sample_index_def binary64_floor_value x2_def)
  have bc0: "0 < real_of_int bc" using assms(3) by simp
  have close: "\<bar>x2 - v\<bar> \<le> real N / 2 ^ 51"
    unfolding x2_def v_def using assms(1,2,3) by (rule sample_index_value_close)
  have "real_of_int (int N * bc) < 2 ^ 51"
    using assms(4) by (metis of_int_less_iff of_int_numeral of_int_power)
  then have "real N * real_of_int bc < 2 ^ 51" by simp
  then have small: "real N / 2 ^ 51 < 1 / real_of_int bc"
    using bc0 by (simp add: field_simps)
  have lo: "v - 1 / real_of_int bc < x2" and hi: "x2 < v + 1 / real_of_int bc"
    using close small by linarith+
  have dr: "i * int N = bc * d + r" by (simp add: d_def r_def)
  have r0: "0 \<le> r" and rbc: "r \<le> bc - 1" using assms(3) by (simp_all add: r_def)
  have "real_of_int (i * int N) = real_of_int (bc * d + r)" using dr by simp
  then have "real_of_int i * real N = real_of_int bc * real_of_int d + real_of_int r" by simp
  then have vd: "v = real_of_int d + real_of_int r / real_of_int bc"
    using bc0 by (simp add: v_def field_simps)
  have rfrac0: "0 \<le> real_of_int r / real_of_int bc" using r0 bc0 by simp
  have rfrac1: "real_of_int r / real_of_int bc \<le> 1 - 1 / real_of_int bc"
  proof -
    have "real_of_int r \<le> real_of_int bc - 1" using rbc by linarith
    then have "real_of_int r / real_of_int bc \<le> (real_of_int bc - 1) / real_of_int bc"
      using bc0 by (simp add: divide_right_mono)
    also have "\<dots> = 1 - 1 / real_of_int bc" using bc0 by (simp add: field_simps)
    finally show ?thesis .
  qed
  have ibc: "1 / real_of_int bc \<le> 1" using assms(3) by simp
  have "real_of_int (d - 1) \<le> x2" using lo vd rfrac0 ibc by simp
  then show "(i * int N) div bc - 1 \<le> sample_index i bc N"
    by (simp add: si d_def le_floor_iff)
  have "x2 < real_of_int (d + 1)" using hi vd rfrac1 by simp
  then have "\<lfloor>x2\<rfloor> < d + 1" by (simp only: floor_less_iff)
  then show up: "sample_index i bc N \<le> (i * int N) div bc"
    by (simp add: si d_def)
  show "sample_index i bc N = (i * int N) div bc" if "(i * int N) mod bc \<noteq> 0"
  proof -
    have "1 \<le> r" using that r0 by (simp add: r_def)
    then have "1 / real_of_int bc \<le> real_of_int r / real_of_int bc"
      using bc0 by (simp add: divide_right_mono)
    then have "real_of_int d \<le> x2" using lo vd by linarith
    then have "d \<le> \<lfloor>x2\<rfloor>" by (simp add: le_floor_iff)
    then show ?thesis using up by (simp add: si d_def)
  qed
qed

lemma sample_index_nonneg: "0 \<le> sample_index i bc N"
  by (simp add: sample_index_def binary64_floor_def)

lemma bar_start_div:
  assumes "0 < bc"
  shows "bar_start N bc i = (i * int N) div bc"
proof -
  have "(real_of_int i / real_of_int bc) * real N = real_of_int (i * int N) / real_of_int bc"
    by simp
  then show ?thesis by (simp only: bar_start_def floor_divide_of_int_eq)
qed

lemma bar_start_le_length:
  assumes "0 \<le> i" and "i < bc"
  shows "bar_start N bc (i + 1) \<le> int N"
  using bar_range(3)[OF assms, of N] by (simp add: bar_start_def)

lemmas binary64_eval = sample_index_def number_div_def number_times_def binary64_of_ratio_def
  binary64_floor_def round_half_even_def Let_def compute_floorlog

lemma sample_index_examples:
  "sample_index 15 22 22 = 14" "sample_index 29 100 48000 = 13919"
  "sample_index 0 22 22 = 0" "sample_index 22 22 22 = 22"
  by (simp_all add: binary64_eval)

lemma sample_index_22:
  "sample_index 14 22 22 = 14" "sample_index 15 22 22 = 14" "sample_index 16 22 22 = 16"
  by (simp_all add: binary64_eval)

lemma bar_start_22:
  "bar_start 22 22 14 = 14" "bar_start 22 22 15 = 15" "bar_start 22 22 16 = 16"
  by (simp_all add: bar_start_def)

subsection \<open>What the two draws paint\<close>

lemma fills_static_calls:
  "fills (static_calls e b) =
     map (\<lambda>i. \<lparr>fill_style = neutral_style,
               rect_x = of_int i * totalBarWidth,
               rect_y = (rect_height e
                         - max 2 (static_peak (channel0 b)
                                    (sample_index i (barCount (rect_width e)) (length (channel0 b)))
                                    (sample_index (i + 1) (barCount (rect_width e)) (length (channel0 b))) 0
                                  * rect_height e * (8 / 10))) / 2,
               rect_w = barWidth,
               rect_h = max 2 (static_peak (channel0 b)
                                    (sample_index i (barCount (rect_width e)) (length (channel0 b)))
                                    (sample_index (i + 1) (barCount (rect_width e)) (length (channel0 b))) 0
                                  * rect_height e * (8 / 10))\<rparr>)
         [0..barCount (rect_width e) - 1]"
  unfolding fills_def static_calls_def Let_def static_bars_upto
  by (simp add: fills_from_blocks[where blk = "static_bar (channel0 b) (rect_height e) (barCount (rect_width e))"
        and r = "\<lambda>i. 1", OF static_bar_def[unfolded Let_def]])

lemma fills_live_calls:
  "fills (live_calls e (Some b) d el) =
     map (\<lambda>i. \<lparr>fill_style = (if of_int i / of_int (barCount (rect_width e)) \<le> progress_of d el
                              then played_style else neutral_style),
               rect_x = of_int i * totalBarWidth,
               rect_y = (rect_height e
                         - max 2 (live_peak (channel0 b)
                                    (sample_index i (barCount (rect_width e)) (length (channel0 b)))
                                    (sample_index (i + 1) (barCount (rect_width e)) (length (channel0 b))) 0
                                  * rect_height e * (8 / 10))) / 2,
               rect_w = barWidth,
               rect_h = max 2 (live_peak (channel0 b)
                                    (sample_index i (barCount (rect_width e)) (length (channel0 b)))
                                    (sample_index (i + 1) (barCount (rect_width e)) (length (channel0 b))) 0
                                  * rect_height e * (8 / 10))\<rparr>)
         [0..barCount (rect_width e) - 1]
     @ [\<lparr>fill_style = played_style, rect_x = progress_of d el * rect_width e - 1, rect_y = 0,
         rect_w = 2, rect_h = rect_height e\<rparr>]"
  unfolding fills_def live_calls_def Let_def live_bars_upto
  by (simp add: fills_from_blocks_then[where blk = "live_bar (channel0 b) (rect_height e) (progress_of d el) (barCount (rect_width e))"
        and r = "\<lambda>i. 1", OF live_bar_def[unfolded Let_def]])

lemma static_bar_painted:
  assumes "0 \<le> i" and "i < barCount (rect_width e)"
  shows "fills (static_calls e b) ! nat i =
     \<lparr>fill_style = neutral_style,
      rect_x = of_int i * totalBarWidth,
      rect_y = (rect_height e
                - max 2 (static_peak (channel0 b)
                           (sample_index i (barCount (rect_width e)) (length (channel0 b)))
                           (sample_index (i + 1) (barCount (rect_width e)) (length (channel0 b))) 0
                         * rect_height e * (8 / 10))) / 2,
      rect_w = barWidth,
      rect_h = max 2 (static_peak (channel0 b)
                           (sample_index i (barCount (rect_width e)) (length (channel0 b)))
                           (sample_index (i + 1) (barCount (rect_width e)) (length (channel0 b))) 0
                         * rect_height e * (8 / 10))\<rparr>"
proof -
  have idx: "nat i < length [0..barCount (rect_width e) - 1]" using assms by simp
  have nth: "[0..barCount (rect_width e) - 1] ! nat i = i" using assms by (simp add: nth_upto)
  show ?thesis unfolding fills_static_calls using idx by (simp only: nth_map nth)
qed

lemma static_peak_range_peak:
  assumes "0 \<le> s" and "t \<le> int (length data)"
  shows "static_peak data s t 0 = range_peak data s t"
proof -
  define R where "R = {nat s ..< nat t}"
  let ?S = "(\<lambda>j. \<bar>data ! j\<bar>) ` R"
  have pk: "static_peak data s t 0 = Max (insert 0 ?S)"
    unfolding R_def using assms by (rule static_peak_Max)
  have rp: "range_peak data s t = (if R = {} then 0 else Max ?S)"
    unfolding range_peak_def R_def ..
  have fin: "finite R" unfolding R_def by simp
  show ?thesis
  proof (cases "R = {}")
    case True
    then show ?thesis unfolding pk rp by simp
  next
    case False
    then have ne: "?S \<noteq> {}" by simp
    have finS: "finite ?S" using fin by simp
    obtain v where v: "v \<in> ?S" using ne by blast
    then have "0 \<le> v" by auto
    also have "v \<le> Max ?S" using finS v by (rule Max_ge)
    finally have "0 \<le> Max ?S" .
    then have "Max (insert 0 ?S) = Max ?S" using finS ne by (simp add: max_def)
    with False show ?thesis unfolding pk rp by simp
  qed
qed

lemma range_peak_silence:
  assumes "t \<le> int (length data)" and "set data \<subseteq> {0}"
  shows "range_peak data s t = 0"
proof -
  define R where "R = {nat s ..< nat t}"
  have rp: "range_peak data s t = (if R = {} then 0 else Max ((\<lambda>j. \<bar>data ! j\<bar>) ` R))"
    unfolding range_peak_def R_def ..
  show ?thesis
  proof (cases "R = {}")
    case True
    then show ?thesis unfolding rp by simp
  next
    case False
    have "\<forall>j\<in>R. j < length data" using assms(1) unfolding R_def by auto
    then have "\<forall>j\<in>R. data ! j \<in> set data" by simp
    then have "\<forall>j\<in>R. \<bar>data ! j\<bar> = 0" using assms(2) by auto
    then have "(\<lambda>j. \<bar>data ! j\<bar>) ` R = {0}" using False by auto
    then show ?thesis using False unfolding rp by simp
  qed
qed

lemma barCount_77: "barCount (rect_width wide_env) = 22" "barCount 77 = 22"
  by (simp_all add: wide_env_def barCount_def totalBarWidth_def barWidth_def gap_def)

lemma click_buffer_length: "length (channel0 click_buffer) = 22"
  by (simp add: click_buffer_def)

lemma barCount_7: "barCount 7 = 2"
  by (simp add: barCount_def totalBarWidth_def barWidth_def gap_def)

subsection \<open>Decimal rendering\<close>

lemma digit_value_digit_char:
  assumes "d < 10"
  shows "digit_value (digit_char d) = d"
proof -
  have "d = 0 \<or> d = 1 \<or> d = 2 \<or> d = 3 \<or> d = 4 \<or> d = 5 \<or> d = 6 \<or> d = 7 \<or> d = 8 \<or> d = 9"
    using assms by arith
  then show ?thesis
    by (elim disjE) (simp_all add: digit_value_def digit_char_def)
qed

lemma decimal_value_snoc: "decimal_value (cs @ [c]) = 10 * decimal_value cs + digit_value c"
  by (simp add: decimal_value_def)

lemma decimal_value_decimal: "decimal_value (decimal n) = n"
proof (induction n rule: decimal.induct)
  case (1 n)
  show ?case
  proof (cases "n < 10")
    case True
    then show ?thesis
      by (subst decimal.simps) (simp add: decimal_value_def digit_value_digit_char)
  next
    case False
    then have "decimal_value (decimal n) = 10 * decimal_value (decimal (n div 10)) + digit_value (digit_char (n mod 10))"
      by (subst decimal.simps) (simp add: decimal_value_snoc)
    also have "\<dots> = 10 * (n div 10) + n mod 10"
      using 1[OF False] by (simp add: digit_value_digit_char)
    finally show ?thesis by simp
  qed
qed

lemma decimal_two_digits:
  assumes "k < 100"
  shows "padStart 2 ''0'' (decimal k) = [digit_char (k div 10), digit_char (k mod 10)]"
proof (cases "k < 10")
  case True
  then show ?thesis by (simp add: padStart_def digit_char_def)
next
  case False
  then have d: "k div 10 < 10" using assms by simp
  have "decimal k = decimal (k div 10) @ [digit_char (k mod 10)]"
    using False by (subst decimal.simps) simp
  also have "decimal (k div 10) = [digit_char (k div 10)]"
    using d by (subst decimal.simps) simp
  finally show ?thesis by (simp add: padStart_def)
qed

lemma js_rem_60:
  assumes "0 \<le> s"
  shows "js_rem s 60 = s - 60 * of_int \<lfloor>s / 60\<rfloor>"
  using assms by (simp add: js_rem_def js_trunc_def)

lemma seconds_field:
  fixes s :: real
  assumes "0 \<le> s"
  shows "\<lfloor>s - 60 * of_int \<lfloor>s / 60\<rfloor>\<rfloor> = \<lfloor>s\<rfloor> mod 60"
proof -
  have "\<lfloor>s / 60\<rfloor> = \<lfloor>s\<rfloor> div 60"
    using floor_divide_real_eq_div[of 60 s] by simp
  moreover have "\<lfloor>s - 60 * of_int \<lfloor>s / 60\<rfloor>\<rfloor> = \<lfloor>s\<rfloor> - 60 * \<lfloor>s / 60\<rfloor>"
  proof -
    have "s - 60 * of_int \<lfloor>s / 60\<rfloor> = s - of_int (60 * \<lfloor>s / 60\<rfloor>)" by simp
    then show ?thesis by (simp only: floor_diff_of_int)
  qed
  ultimately show ?thesis by (simp add: minus_mult_div_eq_mod)
qed

subsection \<open>Frames and the sample run\<close>

lemma can_draw_liveE:
  assumes "can_draw_live p"
  obtains cv an ctx where "canvasRef p = Some cv" "has_context2d cv" "analyserRef p = Some an"
    "audioContextRef p = Some ctx"
  using assms by (auto simp: can_draw_live_def split: option.splits)

lemma drawLiveWaveform_guard_fails: "\<not> can_draw_live p \<Longrightarrow> drawLiveWaveform e p = p"
  by (auto simp: can_draw_live_def drawLiveWaveform_def split: option.splits)

lemma drawLiveWaveform_draws:
  assumes "canvasRef p = Some cv" "has_context2d cv" "analyserRef p = Some an"
    "audioContextRef p = Some ctx"
  shows "drawLiveWaveform e p =
     p\<lparr>canvasRef := Some (cv\<lparr>canvas_width := rect_width e * dpr_or_1 e,
                               canvas_height := rect_height e * dpr_or_1 e,
                               canvas_calls := live_calls e (audioBufferRef p) (duration p)
                                                 (now e - startTimeRef p)\<rparr>),
       animationRef := next_frame_id p,
       currentTime := now e - startTimeRef p,
       pending_frames := pending_frames p @ [next_frame_id p],
       next_frame_id := Suc (next_frame_id p),
       reported_times := reported_times p @ [now e - startTimeRef p]\<rparr>"
  using assms
  by (simp add: drawLiveWaveform_def Let_def setCurrentTime_def requestAnimationFrame_def)

lemma drawLiveWaveform_keeps_guard: "can_draw_live p \<Longrightarrow> can_draw_live (drawLiveWaveform e p)"
  by (erule can_draw_liveE) (simp add: drawLiveWaveform_draws can_draw_live_def)

lemma drawLiveWaveform_startTimeRef: "startTimeRef (drawLiveWaveform e p) = startTimeRef p"
  by (cases "can_draw_live p")
     (auto elim!: can_draw_liveE simp: drawLiveWaveform_draws drawLiveWaveform_guard_fails)

lemma drawLiveWaveform_reported:
  "can_draw_live p \<Longrightarrow>
   reported_times (drawLiveWaveform e p) = reported_times p @ [now e - startTimeRef p]"
  by (erule can_draw_liveE) (simp add: drawLiveWaveform_draws)

lemma run_frames_reported:
  "can_draw_live p \<Longrightarrow>
   reported_times (run_frames es p) = reported_times p @ map (\<lambda>e. now e - startTimeRef p) es"
proof (induction es arbitrary: p)
  case Nil
  then show ?case by simp
next
  case (Cons e es)
  have "reported_times (run_frames es (drawLiveWaveform e p))
        = reported_times (drawLiveWaveform e p)
          @ map (\<lambda>e'. now e' - startTimeRef (drawLiveWaveform e p)) es"
    using Cons.prems by (intro Cons.IH drawLiveWaveform_keeps_guard)
  then show ?case
    using Cons.prems by (simp add: drawLiveWaveform_reported drawLiveWaveform_startTimeRef)
qed

lemma sorted_shift:
  fixes c :: real
  shows "sorted (map f es) \<Longrightarrow> sorted (map (\<lambda>e. f e - c) es)"
  by (induction es) auto

lemmas sample_defs = sample_mounted_def sample_decoded_def sample_playing_def sample_paused_def
  sample_env_def sample_canvas_def sample_buffer_def initial_player_def
  decode_effect_def decode_settled_def set_isPlaying_def isPlaying_effect_def
  startPlayback_def stopPlayback_def drawStaticWaveform_def drawLiveWaveform_def
  setDuration_def setCurrentTime_def requestAnimationFrame_def cancelAnimationFrame_def
  source_stop_def Let_def

lemma sample_playing_fields:
  "isPlaying sample_playing" "sourceRef sample_playing = Some 0"
  "nodes sample_playing = [\<lparr>node_buffer = sample_buffer, playback = Started, onended_set = True, ended_dispatched = False\<rparr>]"
  "startTimeRef sample_playing = 0" "duration sample_playing = 1"
  "pending_frames sample_playing = [1]" "animationRef sample_playing = 1"
  "callbacks sample_playing = []" "reported_times sample_playing = [0]"
  "can_draw_live sample_playing"
  "audioBufferRef sample_playing = Some sample_buffer"
  by (simp_all add: sample_defs can_draw_live_def)

lemma sample_paused_fields:
  "\<not> isPlaying sample_paused" "sourceRef sample_paused = None"
  "nodes sample_paused = [\<lparr>node_buffer = sample_buffer, playback = Stopped, onended_set = True, ended_dispatched = False\<rparr>]"
  "pending_frames sample_paused = []" "animationRef sample_paused = 1"
  "callbacks sample_paused = []" "reported_times sample_paused = [0]"
  "currentTime sample_paused = 0"
  "can_draw_live sample_paused" "startTimeRef sample_paused = 0"
  "audioBufferRef sample_paused = Some sample_buffer"
  by (simp_all add: sample_defs can_draw_live_def)

lemma drawStaticWaveform_only_canvas:
  "\<exists>cvo. drawStaticWaveform e b p = p\<lparr>canvasRef := cvo\<rparr>"
proof (cases "canvasRef p")
  case None
  then have "drawStaticWaveform e b p = p\<lparr>canvasRef := canvasRef p\<rparr>"
    by (simp add: drawStaticWaveform_def)
  then show ?thesis ..
next
  case (Some cv)
  show ?thesis
  proof (cases "has_context2d cv")
    case True
    with Some have "drawStaticWaveform e b p =
        p\<lparr>canvasRef := Some (cv\<lparr>canvas_width := rect_width e * dpr_or_1 e,
                                  canvas_height := rect_height e * dpr_or_1 e,
                                  canvas_calls := static_calls e b\<rparr>)\<rparr>"
      by (simp add: drawStaticWaveform_def)
    then show ?thesis ..
  next
    case False
    with Some have "drawStaticWaveform e b p = p\<lparr>canvasRef := canvasRef p\<rparr>"
      by (simp add: drawStaticWaveform_def)
    then show ?thesis ..
  qed
qed

lemma stopPlayback_returns:
  obtains p' where "stopPlayback e p = Inr p'"
    and "callbacks p' = callbacks p"
    and "sourceRef p' = None"
    and "nodes p' = (case sourceRef p of
        None \<Rightarrow> nodes p
      | Some k \<Rightarrow>
          (case stop_throws e of
             Some x \<Rightarrow> nodes p
           | None \<Rightarrow> (nodes p)[k := (if playback (nodes p ! k) = Started
                                      then (nodes p ! k)\<lparr>playback := Stopped\<rparr>
                                      else nodes p ! k)]))"
    and "pending_frames p' = removeAll (animationRef p) (pending_frames p)"
    and "analyserRef p' = analyserRef p"
    and "audioContextRef p' = audioContextRef p"
    and "currentTime p' = currentTime p"
    and "audioBufferRef p' = audioBufferRef p"
proof -
  define p2 where "p2 =
     (case sourceRef p of
        None \<Rightarrow> cancelAnimationFrame (animationRef p) p
      | Some k \<Rightarrow>
          (case source_stop e k (nodes p) of
             Inl x \<Rightarrow> cancelAnimationFrame (animationRef p) p
           | Inr ns \<Rightarrow> (cancelAnimationFrame (animationRef p) p)\<lparr>nodes := ns\<rparr>)\<lparr>sourceRef := None\<rparr>)"
  define p' where "p' = (case audioBufferRef p2 of None \<Rightarrow> p2 | Some b \<Rightarrow> drawStaticWaveform e b p2)"
  have r: "stopPlayback e p = Inr p'"
    by (cases "sourceRef p"; cases "stop_throws e"; cases "audioBufferRef p")
       (simp_all add: stopPlayback_def Let_def p'_def p2_def cancelAnimationFrame_def
          source_stop_def)
  have f2: "callbacks p2 = callbacks p" "sourceRef p2 = None" "nodes p2 = (case sourceRef p of
        None \<Rightarrow> nodes p
      | Some k \<Rightarrow>
          (case stop_throws e of
             Some x \<Rightarrow> nodes p
           | None \<Rightarrow> (nodes p)[k := (if playback (nodes p ! k) = Started
                                      then (nodes p ! k)\<lparr>playback := Stopped\<rparr>
                                      else nodes p ! k)]))"
    "pending_frames p2 = removeAll (animationRef p) (pending_frames p)"
    "analyserRef p2 = analyserRef p" "audioContextRef p2 = audioContextRef p"
    "currentTime p2 = currentTime p" "audioBufferRef p2 = audioBufferRef p"
    by (simp_all add: p2_def cancelAnimationFrame_def source_stop_def
        split: option.splits)
  obtain cvo where "p' = p2\<lparr>canvasRef := cvo\<rparr>"
  proof (cases "audioBufferRef p2")
    case None
    then have "p' = p2\<lparr>canvasRef := canvasRef p2\<rparr>" by (simp add: p'_def)
    then show ?thesis by (rule that)
  next
    case (Some b)
    then show ?thesis using drawStaticWaveform_only_canvas[of e b p2] that by (auto simp: p'_def)
  qed
  then have "callbacks p' = callbacks p" "sourceRef p' = None" "nodes p' = (case sourceRef p of
        None \<Rightarrow> nodes p
      | Some k \<Rightarrow>
          (case stop_throws e of
             Some x \<Rightarrow> nodes p
           | None \<Rightarrow> (nodes p)[k := (if playback (nodes p ! k) = Started
                                      then (nodes p ! k)\<lparr>playback := Stopped\<rparr>
                                      else nodes p ! k)]))"
    "pending_frames p' = removeAll (animationRef p) (pending_frames p)"
    "analyserRef p' = analyserRef p" "audioContextRef p' = audioContextRef p"
    "currentTime p' = currentTime p" "audioBufferRef p' = audioBufferRef p"
    using f2 by simp_all
  with r show ?thesis by (rule that)
qed

lemma sample_ended_node:
  "0 < length (nodes sample_playing)" "onended_set (nodes sample_playing ! 0)"
  "playback (nodes sample_playing ! 0) = Started" "\<not> ended_dispatched (nodes sample_playing ! 0)"
  by (simp_all add: sample_playing_fields)

lemma sample_mounted_fields:
  "audioBufferRef sample_mounted = None" "callbacks sample_mounted = []"
  "unhandled_rejections sample_mounted = []" "canvasRef sample_mounted = Some sample_canvas"
  "analyserRef sample_mounted = None"
  by (simp_all add: sample_defs)

lemma drawLiveWaveform_changes:
  assumes "can_draw_live p"
  shows "drawLiveWaveform e p \<noteq> p"
proof
  assume eq: "drawLiveWaveform e p = p"
  from assms obtain cv an ctx where g: "canvasRef p = Some cv" "has_context2d cv"
      "analyserRef p = Some an" "audioContextRef p = Some ctx"
    by (rule can_draw_liveE)
  have "next_frame_id (drawLiveWaveform e p) = Suc (next_frame_id p)"
    by (simp add: drawLiveWaveform_draws[OF g])
  with eq show False by simp
qed

lemma length_fills_static_calls:
  "length (fills (static_calls e buffer)) = nat (barCount (rect_width e))"
  by (simp add: fills_static_calls)

lemma styles_differ: "played_style \<noteq> neutral_style"
  by (simp add: played_style_def neutral_style_def)

section \<open>The claims\<close>

text \<open>
  Claim C5, as amended. In the static draw, for every bar index \<open>i\<close> below the bar count,
  the sample loop scans the indices from \<open>s\<close> up to, and not including, \<open>t\<close>, where \<open>s\<close>
  and \<open>t\<close> are \<open>Math.floor((i / barCount) * N)\<close> and \<open>Math.floor(((i+1) / barCount) * N)\<close>
  as binary64 arithmetic evaluates them. For \<open>N * barCount\<close> below \<open>2^51\<close> each of them is
  the floor of the exact value or one below it, and it is the floor of the exact value
  whenever \<open>i * N\<close> (for \<open>t\<close>: \<open>(i+1) * N\<close>) is not a multiple of the bar count; both lie
  between 0 and \<open>N\<close>. The peak the loop computes is the largest absolute amplitude in that
  range, 0 when the range is empty, and the bar painted at position \<open>i\<close> has height
  \<open>max 2 (peak * height * 0.8)\<close>, is centred vertically, and stands at \<open>x = i * 3.5\<close>.
  The height is never below 2, and it is exactly 2 when every sample is zero.
\<close>

theorem static_bar_peak_over_rounded_range:
  assumes "0 \<le> i" and "i < barCount (rect_width e)"
    and "int (length (channel0 buffer)) * barCount (rect_width e) < 2 ^ 51"
  defines "bc \<equiv> barCount (rect_width e)" and "data \<equiv> channel0 buffer"
  defines "s \<equiv> sample_index i bc (length data)"
    and "t \<equiv> sample_index (i + 1) bc (length data)"
  shows "bar_start (length data) bc i - 1 \<le> s \<and> s \<le> bar_start (length data) bc i
       \<and> bar_start (length data) bc (i + 1) - 1 \<le> t
       \<and> t \<le> bar_start (length data) bc (i + 1)
       \<and> ((i * int (length data)) mod bc \<noteq> 0 \<longrightarrow> s = bar_start (length data) bc i)
       \<and> (((i + 1) * int (length data)) mod bc \<noteq> 0
            \<longrightarrow> t = bar_start (length data) bc (i + 1))
       \<and> 0 \<le> s \<and> t \<le> int (length data)
       \<and> static_peak data s t 0 = range_peak data s t
       \<and> fills (static_calls e buffer) ! nat i =
           \<lparr>fill_style = neutral_style,
            rect_x = of_int i * totalBarWidth,
            rect_y = (rect_height e
                      - max 2 (range_peak data s t * rect_height e * (8 / 10))) / 2,
            rect_w = barWidth,
            rect_h = max 2 (range_peak data s t * rect_height e * (8 / 10))\<rparr>
       \<and> 2 \<le> rect_h (fills (static_calls e buffer) ! nat i)
       \<and> (set data \<subseteq> {0} \<longrightarrow> rect_h (fills (static_calls e buffer) ! nat i) = 2)"
proof -
  have bc0: "0 < bc" using assms(1,2) by (simp add: bc_def)
  have small: "int (length data) * bc < 2 ^ 51" using assms(3) by (simp add: bc_def data_def)
  have i1: "0 \<le> i + 1" "i + 1 \<le> bc" and i0: "i \<le> bc"
    using assms(1,2) by (simp_all add: bc_def)
  note cs = sample_index_close[OF assms(1) i0 bc0 small, folded s_def]
  note ct = sample_index_close[OF i1 bc0 small, folded t_def]
  have bs: "bar_start (length data) bc i = (i * int (length data)) div bc"
    and bt: "bar_start (length data) bc (i + 1) = ((i + 1) * int (length data)) div bc"
    using bc0 by (simp_all add: bar_start_div)
  have s0: "0 \<le> s" by (simp add: s_def sample_index_nonneg)
  have "bar_start (length data) bc (i + 1) \<le> int (length data)"
    using assms(1,2) by (intro bar_start_le_length) (simp_all add: bc_def)
  then have tN: "t \<le> int (length data)" using ct(2) bt by linarith
  have pk: "static_peak data s t 0 = range_peak data s t"
    using s0 tN by (rule static_peak_range_peak)
  have bar: "fills (static_calls e buffer) ! nat i =
           \<lparr>fill_style = neutral_style,
            rect_x = of_int i * totalBarWidth,
            rect_y = (rect_height e
                      - max 2 (range_peak data s t * rect_height e * (8 / 10))) / 2,
            rect_w = barWidth,
            rect_h = max 2 (range_peak data s t * rect_height e * (8 / 10))\<rparr>"
    by (rule static_bar_painted[OF assms(1,2), of buffer, folded bc_def data_def,
          folded s_def t_def, unfolded pk])
  have h2: "2 \<le> rect_h (fills (static_calls e buffer) ! nat i)"
    by (simp add: bar)
  have silent: "set data \<subseteq> {0} \<longrightarrow> rect_h (fills (static_calls e buffer) ! nat i) = 2"
    using range_peak_silence[OF tN, of s] by (simp add: bar)
  show ?thesis
    using cs(1,2) ct(1,2) cs(3) ct(3) s0 tN pk bar h2 silent unfolding bs bt by blast
qed

theorem static_bar_peak_over_rounded_range_witness:
  "(0::int) \<le> 15 \<and> 15 < barCount (rect_width wide_env)
   \<and> int (length (channel0 click_buffer)) * barCount (rect_width wide_env) < 2 ^ 51
   \<and> sample_index 15 22 22 = bar_start 22 22 15 - 1
   \<and> sample_index 16 22 22 = bar_start 22 22 16
   \<and> range_peak (channel0 click_buffer) 14 16 = 1
   \<and> rect_h (fills (static_calls wide_env click_buffer) ! 15) = 8
   \<and> (1 * int (length (channel0 (click_buffer\<lparr>channel0 := [0, 0, 0, 0]\<rparr>))))
         mod barCount (rect_width wide_env) \<noteq> 0
   \<and> sample_index 1 22 4 = bar_start 4 22 1
   \<and> set (channel0 (click_buffer\<lparr>channel0 := [0, 0, 0, 0]\<rparr>)) \<subseteq> {0}
   \<and> rect_h (fills (static_calls wide_env (click_buffer\<lparr>channel0 := [0, 0, 0, 0]\<rparr>)) ! 1) = 2"
proof -
  let ?silent = "click_buffer\<lparr>channel0 := [0, 0, 0, 0]\<rparr>"
  have h: "(0::int) \<le> 15" "15 < barCount (rect_width wide_env)"
    "int (length (channel0 click_buffer)) * barCount (rect_width wide_env) < 2 ^ 51"
    by (simp_all add: barCount_77 click_buffer_length)
  have g: "(0::int) \<le> 1" "1 < barCount (rect_width wide_env)"
    "int (length (channel0 ?silent)) * barCount (rect_width wide_env) < 2 ^ 51"
    by (simp_all add: barCount_77)
  have r: "{14..<16::nat} = {14, 15}" by auto
  have rp: "range_peak (channel0 click_buffer) 14 16 = 1"
    by (simp add: range_peak_def click_buffer_def r)
  have n15: "nat 15 = 15" "nat 1 = 1" by simp_all
  have m': "(1 * int (length (channel0 ?silent))) mod barCount (rect_width wide_env) \<noteq> 0"
    by (simp add: barCount_77)
  have z: "set (channel0 ?silent) \<subseteq> {0}" by simp
  note t1 = static_bar_peak_over_rounded_range[OF h]
  have len4: "length (channel0 ?silent) = 4" by simp
  note t2 = static_bar_peak_over_rounded_range[OF g, unfolded len4 barCount_77]
  have e16: "(15::int) + 1 = 16" by simp
  have "rect_h (fills (static_calls wide_env click_buffer) ! nat 15)
        = max 2 (range_peak (channel0 click_buffer) 14 16 * rect_height wide_env * (8 / 10))"
    using t1 by (simp add: barCount_77 click_buffer_length e16 sample_index_22)
  then have a: "rect_h (fills (static_calls wide_env click_buffer) ! 15) = 8"
    by (simp add: rp wide_env_def)
  have "(1 * int 4) mod 22 \<noteq> 0 \<longrightarrow> sample_index 1 22 4 = bar_start 4 22 1"
    using t2 by blast
  then have b: "sample_index 1 22 4 = bar_start 4 22 1" by simp
  have "set (channel0 ?silent) \<subseteq> {0}
        \<longrightarrow> rect_h (fills (static_calls wide_env ?silent) ! nat 1) = 2"
    using t2 by blast
  then have c: "rect_h (fills (static_calls wide_env ?silent) ! 1) = 2"
    using z by (simp only: n15)
  have d: "sample_index 15 22 22 = bar_start 22 22 15 - 1" "sample_index 16 22 22 = bar_start 22 22 16"
    by (simp_all add: sample_index_22 bar_start_22)
  show ?thesis
    using h rp a m' b z c d by blast
qed

text \<open>
  Claim C5 as stated, with the floors of the exact values, fails: with 22 bars over 22
  samples \<open>(15 / 22) * 22\<close> evaluates to a number just below 15, whose floor is 14. Bar 14
  then scans no sample and is painted with the floor height 2, although the range of the
  claim holds sample 14, of amplitude 1, which gives height 8; the draw counts that sample
  for bar 15 instead.
\<close>

theorem static_bar_range_not_exact_floor:
  "barCount (rect_width wide_env) = 22
   \<and> length (channel0 click_buffer) = 22
   \<and> BarSample (channel0 click_buffer) 22 14 = 1
   \<and> max 2 (BarSample (channel0 click_buffer) 22 14 * rect_height wide_env * (8 / 10)) = 8
   \<and> sample_index 14 22 22 = 14 \<and> sample_index 15 22 22 = 14
   \<and> static_peak (channel0 click_buffer) (sample_index 14 22 22) (sample_index 15 22 22) 0 = 0
   \<and> rect_h (fills (static_calls wide_env click_buffer) ! 14) = 2"
proof -
  have r: "{14..<15::nat} = {14}" by auto
  have bs: "BarSample (channel0 click_buffer) 22 14 = 1"
    by (simp add: BarSample_def click_buffer_length bar_start_22 range_peak_def r)
       (simp add: click_buffer_def)
  have pk: "static_peak (channel0 click_buffer) 14 14 0 = 0"
    by (subst static_peak.simps) simp
  have h: "(0::int) \<le> 14" "14 < barCount (rect_width wide_env)"
    by (simp_all add: barCount_77)
  have n: "nat 14 = 14" by simp
  have bar: "rect_h (fills (static_calls wide_env click_buffer) ! 14) = 2"
    using static_bar_painted[OF h, of click_buffer]
    by (simp add: barCount_77 click_buffer_length sample_index_22 pk)
  show ?thesis
    using bs bar pk by (simp add: barCount_77 click_buffer_length sample_index_22 wide_env_def)
qed

text \<open>
  Claim C10. For one buffer and one surface geometry, the bars painted by the live draw
  (everything it paints but the last rectangle) have the same x, y, width and height as the
  bars painted by the static draw, whatever the duration and the elapsed time. The static
  draw paints every bar in the neutral colour, the live draw colours each bar by the
  progress rule, and the one extra rectangle of the live draw is the playhead.
\<close>

theorem live_bars_same_geometry:
  "map geometry (butlast (fills (live_calls e (Some buffer) d el)))
     = map geometry (fills (static_calls e buffer))
   \<and> map fill_style (fills (static_calls e buffer))
     = replicate (length (fills (static_calls e buffer))) neutral_style
   \<and> map fill_style (butlast (fills (live_calls e (Some buffer) d el)))
     = map (\<lambda>i. if of_int i / of_int (barCount (rect_width e)) \<le> progress_of d el
                 then played_style else neutral_style) [0..barCount (rect_width e) - 1]
   \<and> last (fills (live_calls e (Some buffer) d el))
     = \<lparr>fill_style = played_style, rect_x = progress_of d el * rect_width e - 1, rect_y = 0,
        rect_w = 2, rect_h = rect_height e\<rparr>
   \<and> length (fills (live_calls e (Some buffer) d el))
     = Suc (length (fills (static_calls e buffer)))"
  unfolding fills_live_calls fills_static_calls
  by (simp add: geometry_def live_peak_static_peak comp_def map_replicate_const)

text \<open>
  Claim C9. For every non-negative number of seconds \<open>s\<close>, formatTime renders the decimal
  digits of \<open>floor(s/60)\<close> (any number of them: minutes are not folded into hours), a colon,
  and the two decimal digits of \<open>floor(s mod 60)\<close>, which lies below 60. In particular
  0 gives 0:00, 65 gives 1:05, 599 gives 9:59 and 600 gives 10:00.
\<close>

theorem formatTime_minutes_seconds:
  assumes "0 \<le> s"
  shows "formatTime s =
           decimal (nat \<lfloor>s / 60\<rfloor>) @ '':''
           @ [digit_char (nat \<lfloor>s - 60 * of_int \<lfloor>s / 60\<rfloor>\<rfloor> div 10),
              digit_char (nat \<lfloor>s - 60 * of_int \<lfloor>s / 60\<rfloor>\<rfloor> mod 10)]
       \<and> decimal_value (decimal (nat \<lfloor>s / 60\<rfloor>)) = nat \<lfloor>s / 60\<rfloor>
       \<and> \<lfloor>s - 60 * of_int \<lfloor>s / 60\<rfloor>\<rfloor> = \<lfloor>s\<rfloor> mod 60
       \<and> nat \<lfloor>s - 60 * of_int \<lfloor>s / 60\<rfloor>\<rfloor> < 60
       \<and> formatTime 0 = ''0:00''
       \<and> formatTime 65 = ''1:05''
       \<and> formatTime 599 = ''9:59''
       \<and> formatTime 600 = ''10:00''"
proof -
  let ?sec = "\<lfloor>s - 60 * of_int \<lfloor>s / 60\<rfloor>\<rfloor>"
  have m0: "0 \<le> \<lfloor>s / 60\<rfloor>" using assms by simp
  have sec: "?sec = \<lfloor>s\<rfloor> mod 60" using assms by (rule seconds_field)
  have sec0: "0 \<le> ?sec" and sec60: "?sec < 60" unfolding sec by simp_all
  have k: "nat ?sec < 100" using sec60 by linarith
  have "formatTime s = number_toString \<lfloor>s / 60\<rfloor> @ '':'' @ padStart 2 ''0'' (number_toString ?sec)"
    by (simp add: formatTime_def Let_def js_rem_60[OF assms])
  also have "number_toString \<lfloor>s / 60\<rfloor> = decimal (nat \<lfloor>s / 60\<rfloor>)"
    using m0 by (simp add: number_toString_def)
  also have "number_toString ?sec = decimal (nat ?sec)"
    using sec0 by (simp add: number_toString_def)
  also have "padStart 2 ''0'' (decimal (nat ?sec))
             = [digit_char (nat ?sec div 10), digit_char (nat ?sec mod 10)]"
    using k by (rule decimal_two_digits)
  finally have main: "formatTime s = decimal (nat \<lfloor>s / 60\<rfloor>) @ '':''
           @ [digit_char (nat ?sec div 10), digit_char (nat ?sec mod 10)]" .
  have e0: "formatTime 0 = ''0:00''"
    by (simp add: formatTime_def js_rem_def js_trunc_def number_toString_def padStart_def digit_char_def)
  have e1: "formatTime 65 = ''1:05''"
    by (simp add: formatTime_def js_rem_def js_trunc_def number_toString_def padStart_def digit_char_def)
  have e2: "formatTime 599 = ''9:59''"
    by (simp add: formatTime_def js_rem_def js_trunc_def number_toString_def padStart_def digit_char_def)
  have e3: "formatTime 600 = ''10:00''"
    by (simp add: formatTime_def js_rem_def js_trunc_def number_toString_def padStart_def digit_char_def)
  have lt: "nat ?sec < 60" using sec60 by linarith
  show ?thesis
    using main decimal_value_decimal[of "nat \<lfloor>s / 60\<rfloor>"] sec lt e0 e1 e2 e3 by blast
qed

theorem formatTime_minutes_seconds_witness:
  "(0::real) \<le> 7325 / 2 \<and> formatTime (7325 / 2) = ''61:02''"
proof -
  have h: "(0::real) \<le> 7325 / 2" by simp
  have f: "\<lfloor>7325 / 2 / 60 :: real\<rfloor> = 61" by (simp add: floor_eq_iff)
  have g: "\<lfloor>7325 / 2 - 60 * 61 :: real\<rfloor> = 2" by (simp add: floor_eq_iff)
  have d: "decimal 61 = ''61''"
    by (simp add: digit_char_def)
  show ?thesis
    using formatTime_minutes_seconds[OF h] h
    by (simp add: f g d digit_char_def)
qed

text \<open>
  Claim C1, as amended. The frame callback reports the audio clock minus the recorded start
  time, unclamped. Over the successive frames of one session the reported values are
  non-decreasing whenever the clock readings are; a reported value is at most the duration
  exactly when the clock has not passed start plus duration. Nothing in the callback keeps
  it below the duration.
\<close>

theorem reported_elapsed_monotone:
  assumes "can_draw_live p" and "sorted (map now es)"
  shows "reported_times (run_frames es p)
           = reported_times p @ map (\<lambda>e. now e - startTimeRef p) es
       \<and> sorted (map (\<lambda>e. now e - startTimeRef p) es)
       \<and> (\<forall>e. (currentTime (drawLiveWaveform e p) \<le> duration p)
                = (now e \<le> startTimeRef p + duration p))"
proof -
  have "\<And>e. currentTime (drawLiveWaveform e p) = now e - startTimeRef p"
    using assms(1) by (auto elim!: can_draw_liveE simp: drawLiveWaveform_draws)
  then have "\<forall>e. (currentTime (drawLiveWaveform e p) \<le> duration p)
                = (now e \<le> startTimeRef p + duration p)"
    by auto
  then show ?thesis
    using run_frames_reported[OF assms(1), of es] sorted_shift[OF assms(2), of "startTimeRef p"]
    by blast
qed

theorem reported_elapsed_monotone_witness:
  "can_draw_live sample_playing
   \<and> sorted (map now [sample_env (1 / 4), sample_env (1 / 2)])
   \<and> reported_times (run_frames [sample_env (1 / 4), sample_env (1 / 2)] sample_playing)
       = [0, 1 / 4, 1 / 2]"
proof -
  have h1: "can_draw_live sample_playing" by (rule sample_playing_fields)
  have h2: "sorted (map now [sample_env (1 / 4), sample_env (1 / 2)])"
    by (simp add: sample_env_def)
  show ?thesis
    using reported_elapsed_monotone[OF h1 h2] h1 h2
    by (simp add: sample_playing_fields sample_env_def)
qed

text \<open>
  Claim C1 as stated fails: the sample buffer lasts 1 second, playback started at clock 0,
  and a frame that fires at clock 2, before the ended event has been handled, reports 2
  while the player is still Playing.
\<close>

theorem reported_elapsed_exceeds_duration:
  "transport_state sample_playing = Playing
   \<and> duration sample_playing = buf_duration sample_buffer
   \<and> transport_state (drawLiveWaveform (sample_env 2) sample_playing) = Playing
   \<and> reported_times (drawLiveWaveform (sample_env 2) sample_playing) = [0, 2]
   \<and> buf_duration sample_buffer < currentTime (drawLiveWaveform (sample_env 2) sample_playing)"
proof -
  note d = drawLiveWaveform_draws[of sample_playing _ _ _ "sample_env 2"]
  obtain cv an ctx where g: "canvasRef sample_playing = Some cv" "has_context2d cv"
      "analyserRef sample_playing = Some an" "audioContextRef sample_playing = Some ctx"
    using sample_playing_fields(10) by (rule can_draw_liveE)
  show ?thesis
    by (simp add: d[OF g] transport_state_def sample_playing_fields)
       (simp add: sample_env_def sample_buffer_def)
qed

text \<open>
  Claim C2, as amended. The handler that startPlayback assigns to \<open>onended\<close> invokes
  \<open>onEnded\<close> once and resets the elapsed time to 0 each time the ended event of its source
  is dispatched. For a playing source with the handler attached: no ended event is due while
  it plays; after it has played out, the event invokes \<open>onEnded\<close> exactly once (a second
  dispatch changes nothing) and leaves the elapsed time 0. stopPlayback itself invokes no
  callback and leaves the elapsed time as it is, but it does not detach the handler, so the
  ended event that follows a successful \<open>stop()\<close> invokes \<open>onEnded\<close> once as well.
\<close>

theorem onEnded_once_per_ended_event:
  assumes "k < length (nodes p)" and "onended_set (nodes p ! k)"
    and "playback (nodes p ! k) = Started" and "\<not> ended_dispatched (nodes p ! k)"
  shows "dispatch_ended k p = p
       \<and> callbacks (dispatch_ended k (buffer_played_out k p)) = callbacks p @ [OnEnded]
       \<and> currentTime (dispatch_ended k (buffer_played_out k p)) = 0
       \<and> dispatch_ended k (dispatch_ended k (buffer_played_out k p))
           = dispatch_ended k (buffer_played_out k p)
       \<and> (\<exists>p'. stopPlayback e p = Inr p' \<and> callbacks p' = callbacks p
              \<and> currentTime p' = currentTime p
              \<and> (sourceRef p = Some k \<and> stop_throws e = None
                   \<longrightarrow> callbacks (dispatch_ended k p') = callbacks p @ [OnEnded]
                     \<and> currentTime (dispatch_ended k p') = 0
                     \<and> dispatch_ended k (dispatch_ended k p') = dispatch_ended k p'))"
proof -
  have a: "dispatch_ended k p = p" using assms by (simp add: dispatch_ended_def)
  have b: "callbacks (dispatch_ended k (buffer_played_out k p)) = callbacks p @ [OnEnded]"
    "currentTime (dispatch_ended k (buffer_played_out k p)) = 0"
    "dispatch_ended k (dispatch_ended k (buffer_played_out k p))
           = dispatch_ended k (buffer_played_out k p)"
    using assms
    by (simp_all add: dispatch_ended_def buffer_played_out_def Let_def ended_handler_def
        setCurrentTime_def)
  obtain p' where p': "stopPlayback e p = Inr p'" "callbacks p' = callbacks p"
    "currentTime p' = currentTime p"
    "nodes p' = (case sourceRef p of
        None \<Rightarrow> nodes p
      | Some k \<Rightarrow>
          (case stop_throws e of
             Some x \<Rightarrow> nodes p
           | None \<Rightarrow> (nodes p)[k := (if playback (nodes p ! k) = Started
                                      then (nodes p ! k)\<lparr>playback := Stopped\<rparr>
                                      else nodes p ! k)]))"
    by (rule stopPlayback_returns[of e p]) blast
  have c: "sourceRef p = Some k \<and> stop_throws e = None
                   \<longrightarrow> callbacks (dispatch_ended k p') = callbacks p @ [OnEnded]
                     \<and> currentTime (dispatch_ended k p') = 0
                     \<and> dispatch_ended k (dispatch_ended k p') = dispatch_ended k p'"
    using assms p'(2,3,4)
    by (simp add: dispatch_ended_def Let_def ended_handler_def setCurrentTime_def)
  show ?thesis using a b p'(1,2,3) c by blast
qed

theorem onEnded_once_per_ended_event_witness:
  "0 < length (nodes sample_playing) \<and> onended_set (nodes sample_playing ! 0)
   \<and> playback (nodes sample_playing ! 0) = Started
   \<and> \<not> ended_dispatched (nodes sample_playing ! 0)
   \<and> callbacks sample_playing = []
   \<and> callbacks (dispatch_ended 0 (buffer_played_out 0 sample_playing)) = [OnEnded]
   \<and> currentTime (dispatch_ended 0 (buffer_played_out 0 sample_playing)) = 0
   \<and> sourceRef sample_playing = Some 0 \<and> stop_throws (sample_env 1) = None
   \<and> callbacks (projr (stopPlayback (sample_env 1) sample_playing)) = []
   \<and> callbacks (dispatch_ended 0 (projr (stopPlayback (sample_env 1) sample_playing))) = [OnEnded]"
proof -
  have s: "sourceRef sample_playing = Some 0" "stop_throws (sample_env 1) = None"
    by (simp_all add: sample_playing_fields sample_env_def)
  show ?thesis
    using onEnded_once_per_ended_event[OF sample_ended_node, of "sample_env 1"]
      sample_ended_node s
    by (auto simp add: sample_playing_fields(8))
qed

text \<open>
  Claim C2 as stated fails in its second part: in the sample run the user pauses at clock
  1/2, half way through the buffer. stopPlayback calls \<open>stop()\<close> and drops the source; the
  source never plays out, and the ended event that Web Audio dispatches for the stopped
  source still runs the handler, which invokes \<open>onEnded\<close>.
\<close>

theorem onEnded_after_pause:
  "callbacks sample_paused = []
   \<and> playback (nodes sample_paused ! 0) = Stopped
   \<and> callbacks (dispatch_ended 0 sample_paused) = [OnEnded]"
  by (simp add: sample_paused_fields dispatch_ended_def Let_def ended_handler_def
      setCurrentTime_def)




text \<open>
  Claim C4, as amended. stopPlayback cancels the frame whose handle is in
  \<open>animationRef\<close> and keeps the analyser. A frame callback that runs nevertheless is a no-op
  exactly when its guard fails, that is when the canvas, its 2D context, the analyser or the
  audio context is absent; so it is a no-op in an Idle state in which playback was never
  started (no analyser yet).
\<close>

theorem stray_frame_noop_iff_guard_fails:
  "(drawLiveWaveform e p = p) = (\<not> can_draw_live p)
   \<and> (analyserRef p = None \<longrightarrow> drawLiveWaveform e p = p)
   \<and> (\<exists>p'. stopPlayback e' p = Inr p'
          \<and> animationRef p \<notin> set (pending_frames p')
          \<and> analyserRef p' = analyserRef p)"
proof -
  have a: "(drawLiveWaveform e p = p) = (\<not> can_draw_live p)"
    using drawLiveWaveform_changes[of p e] drawLiveWaveform_guard_fails[of p e] by blast
  have b: "analyserRef p = None \<longrightarrow> drawLiveWaveform e p = p"
    by (auto simp: can_draw_live_def split: option.splits intro!: drawLiveWaveform_guard_fails)
  obtain p' where "stopPlayback e' p = Inr p'"
    "pending_frames p' = removeAll (animationRef p) (pending_frames p)"
    "analyserRef p' = analyserRef p"
    by (rule stopPlayback_returns[of e' p]) blast
  then have c: "\<exists>p'. stopPlayback e' p = Inr p'
          \<and> animationRef p \<notin> set (pending_frames p')
          \<and> analyserRef p' = analyserRef p"
    by simp
  show ?thesis using a b c by blast
qed

theorem stray_frame_noop_iff_guard_fails_witness:
  "analyserRef sample_decoded = None
   \<and> transport_state sample_decoded = Idle
   \<and> drawLiveWaveform (sample_env 1) sample_decoded = sample_decoded"
proof -
  have h: "analyserRef sample_decoded = None" by (simp add: sample_defs)
  have i: "transport_state sample_decoded = Idle" by (simp add: transport_state_def sample_defs)
  show ?thesis
    using stray_frame_noop_iff_guard_fails[of "sample_env 1" sample_decoded] h i by blast
qed

text \<open>
  Claim C4 as stated fails: after play and pause the sample player is Idle with no frame
  pending, but the analyser is still set, so a frame callback invoked at clock 1 reports an
  elapsed time of 1, repaints the bars and the playhead, and schedules frame 2.
\<close>

theorem stray_frame_after_pause:
  "transport_state sample_paused = Idle
   \<and> pending_frames sample_paused = []
   \<and> currentTime sample_paused = 0
   \<and> currentTime (drawLiveWaveform (sample_env 1) sample_paused) = 1
   \<and> pending_frames (drawLiveWaveform (sample_env 1) sample_paused) = [2]
   \<and> map fill_style (fills (canvas_calls (the (canvasRef (drawLiveWaveform (sample_env 1) sample_paused)))))
       = [played_style, played_style, played_style]"
proof -
  obtain cv an ctx where g: "canvasRef sample_paused = Some cv" "has_context2d cv"
      "analyserRef sample_paused = Some an" "audioContextRef sample_paused = Some ctx"
    using sample_paused_fields(9) by (rule can_draw_liveE)
  have nf: "next_frame_id sample_paused = 2" by (simp add: sample_defs)
  have du: "duration sample_paused = 1" by (simp add: sample_defs)
  have up: "[0..1::int] = [0, 1]" by (simp add: upto_rec1)
  have fs: "map fill_style (fills (live_calls (sample_env 1) (Some sample_buffer) 1 1))
            = [played_style, played_style, played_style]"
    unfolding fills_live_calls
    by (simp add: sample_env_def barCount_7 progress_of_def up comp_def)
  have el: "now (sample_env 1) = 1" by (simp add: sample_env_def)
  show ?thesis
    by (simp add: drawLiveWaveform_draws[OF g] transport_state_def sample_paused_fields nf du
        el fs)
qed

text \<open>
  Claim C6. When a decode succeeds and the canvas is attached with a 2D context, the static
  draw that follows at once paints exactly \<open>floor(width / (barWidth + gap))\<close> bars on a
  surface of non-negative width, where the bar width is 2 and the gap 1.5; the draw is a
  total function of buffer and geometry, no step of it can throw, and no rejection is
  recorded.
\<close>

theorem static_draw_bar_count:
  assumes "canvasRef p = Some cv" and "has_context2d cv" and "0 \<le> rect_width e"
  shows "\<exists>cv'. canvasRef (decode_settled e (Decoded buffer) p) = Some cv'
           \<and> canvasRef (drawStaticWaveform e buffer p) = Some cv'
           \<and> canvas_calls cv' = static_calls e buffer
           \<and> int (length (fills (canvas_calls cv'))) = \<lfloor>rect_width e / (barWidth + gap)\<rfloor>
           \<and> audioBufferRef (decode_settled e (Decoded buffer) p) = Some buffer
           \<and> unhandled_rejections (decode_settled e (Decoded buffer) p) = unhandled_rejections p"
proof -
  have "0 \<le> rect_width e / (barWidth + gap)"
    using assms(3) by (simp add: barWidth_def gap_def)
  then have "0 \<le> barCount (rect_width e)"
    by (simp add: barCount_def totalBarWidth_def)
  then have "int (length (fills (static_calls e buffer))) = \<lfloor>rect_width e / (barWidth + gap)\<rfloor>"
    by (simp add: length_fills_static_calls) (simp add: barCount_def totalBarWidth_def)
  then show ?thesis
    using assms(1,2)
    by (simp add: decode_settled_def drawStaticWaveform_def setDuration_def)
qed

theorem static_draw_bar_count_witness:
  "canvasRef sample_mounted = Some sample_canvas \<and> has_context2d sample_canvas
   \<and> (0::real) \<le> rect_width (sample_env 0)
   \<and> length (fills (canvas_calls (the (canvasRef sample_decoded)))) = 2
   \<and> \<lfloor>rect_width (sample_env 0) / (barWidth + gap)\<rfloor> = 2"
proof -
  have h: "canvasRef sample_mounted = Some sample_canvas" "has_context2d sample_canvas"
    "0 \<le> rect_width (sample_env 0)"
    by (simp_all add: sample_mounted_fields sample_canvas_def sample_env_def)
  have f: "\<lfloor>rect_width (sample_env 0) / (barWidth + gap)\<rfloor> = 2"
    by (simp add: sample_env_def barWidth_def gap_def)
  obtain cv' where c: "canvasRef (decode_settled (sample_env 0) (Decoded sample_buffer) sample_mounted) = Some cv'"
    "int (length (fills (canvas_calls cv'))) = \<lfloor>rect_width (sample_env 0) / (barWidth + gap)\<rfloor>"
    using static_draw_bar_count[OF h, of sample_buffer] by blast
  have "length (fills (canvas_calls (the (canvasRef sample_decoded)))) = 2"
    using c f by (simp add: sample_decoded_def)
  then show ?thesis using h f by blast
qed

text \<open>
  Claim C7. In a live draw with duration \<open>D\<close> and elapsed time \<open>E\<close> the progress is \<open>E / D\<close>
  when \<open>D\<close> is positive and 0 when \<open>D\<close> is 0. For every bar index \<open>i\<close> below the bar count,
  bar \<open>i\<close> is painted in the accent colour if and only if \<open>i / barCount\<close> is at most the
  progress (so the bar exactly at the progress is played), and in the neutral colour
  otherwise; the two colours differ.
\<close>

theorem live_progress_colouring:
  assumes "can_draw_live p" and "audioBufferRef p = Some buffer"
    and "0 \<le> i" and "i < barCount (rect_width e)"
  shows "(0 < D \<longrightarrow> progress_of D E = E / D) \<and> progress_of 0 E = 0
       \<and> (\<exists>cv'. canvasRef (drawLiveWaveform e p) = Some cv'
              \<and> canvas_calls cv'
                  = live_calls e (Some buffer) (duration p) (now e - startTimeRef p)
              \<and> fill_style (fills (canvas_calls cv') ! nat i)
                  = (if of_int i / of_int (barCount (rect_width e))
                          \<le> progress_of (duration p) (now e - startTimeRef p)
                     then played_style else neutral_style)
              \<and> (fill_style (fills (canvas_calls cv') ! nat i) = played_style)
                  = (of_int i / of_int (barCount (rect_width e))
                       \<le> progress_of (duration p) (now e - startTimeRef p)))
       \<and> played_style \<noteq> neutral_style"
proof -
  from assms(1) obtain cv an ctx where g: "canvasRef p = Some cv" "has_context2d cv"
      "analyserRef p = Some an" "audioContextRef p = Some ctx"
    by (rule can_draw_liveE)
  let ?bc = "barCount (rect_width e)"
  let ?calls = "live_calls e (Some buffer) (duration p) (now e - startTimeRef p)"
  have idx: "nat i < length [0..?bc - 1]" using assms(3,4) by simp
  have nth: "[0..?bc - 1] ! nat i = i" using assms(3,4) by (simp add: nth_upto)
  have st: "fill_style (fills ?calls ! nat i)
            = (if of_int i / of_int ?bc \<le> progress_of (duration p) (now e - startTimeRef p)
               then played_style else neutral_style)"
    unfolding fills_live_calls using idx by (simp add: nth_append nth)
  have iff: "(fill_style (fills ?calls ! nat i) = played_style)
            = (of_int i / of_int ?bc \<le> progress_of (duration p) (now e - startTimeRef p))"
    unfolding st using styles_differ by auto
  have cv: "\<exists>cv'. canvasRef (drawLiveWaveform e p) = Some cv' \<and> canvas_calls cv' = ?calls"
    by (simp add: drawLiveWaveform_draws[OF g] assms(2))
  have pr: "(0 < D \<longrightarrow> progress_of D E = E / D) \<and> progress_of 0 E = 0"
    by (simp add: progress_of_def)
  show ?thesis using cv st iff pr styles_differ by auto
qed

theorem live_progress_colouring_witness:
  "can_draw_live sample_playing \<and> audioBufferRef sample_playing = Some sample_buffer
   \<and> (0::int) \<le> 1 \<and> 1 < barCount (rect_width (sample_env (1 / 2)))
   \<and> (0::real) < 1 \<and> progress_of 1 (1 / 2) = 1 / 2
   \<and> real_of_int 1 / real_of_int (barCount (rect_width (sample_env (1 / 2)))) = 1 / 2
   \<and> fill_style (fills (canvas_calls (the (canvasRef
         (drawLiveWaveform (sample_env (1 / 2)) sample_playing)))) ! nat 1) = played_style"
proof -
  have bc: "barCount (rect_width (sample_env (1 / 2))) = 2"
    by (simp add: sample_env_def barCount_7)
  have h: "can_draw_live sample_playing" "audioBufferRef sample_playing = Some sample_buffer"
    "(0::int) \<le> 1" "1 < barCount (rect_width (sample_env (1 / 2)))"
    by (simp_all add: sample_playing_fields bc)
  have el: "now (sample_env (1 / 2)) - startTimeRef sample_playing = 1 / 2"
    by (simp add: sample_playing_fields sample_env_def)
  note t = live_progress_colouring[OF h, of 1 "1 / 2", unfolded bc el sample_playing_fields(5)]
  have pr: "progress_of 1 (1 / 2) = 1 / 2" using t by simp
  have "fill_style (fills (canvas_calls (the (canvasRef
         (drawLiveWaveform (sample_env (1 / 2)) sample_playing)))) ! nat 1) = played_style"
    using t pr by auto
  then show ?thesis using h pr bc by simp
qed

text \<open>
  Claim C8. stopPlayback never lets an exception escape, whether or not \<open>stop()\<close> throws,
  and two calls in a row both return normally. The first call drops the source; the second
  finds none and leaves the nodes untouched. A call whose \<open>stop()\<close> throws, or that finds
  no source, leaves the nodes as they were.
\<close>

theorem stopPlayback_twice_no_error:
  "\<exists>p1 p2. stopPlayback e1 p = Inr p1 \<and> stopPlayback e2 p1 = Inr p2
        \<and> sourceRef p1 = None \<and> sourceRef p2 = None \<and> nodes p2 = nodes p1
        \<and> (stop_throws e1 \<noteq> None \<longrightarrow> nodes p1 = nodes p)
        \<and> (sourceRef p = None \<longrightarrow> nodes p1 = nodes p)"
proof -
  obtain p1 where p1: "stopPlayback e1 p = Inr p1" "sourceRef p1 = None"
    "nodes p1 = (case sourceRef p of
        None \<Rightarrow> nodes p
      | Some k \<Rightarrow>
          (case stop_throws e1 of
             Some x \<Rightarrow> nodes p
           | None \<Rightarrow> (nodes p)[k := (if playback (nodes p ! k) = Started
                                      then (nodes p ! k)\<lparr>playback := Stopped\<rparr>
                                      else nodes p ! k)]))"
    by (rule stopPlayback_returns[of e1 p]) blast
  obtain p2 where p2: "stopPlayback e2 p1 = Inr p2" "sourceRef p2 = None"
    "nodes p2 = (case sourceRef p1 of
        None \<Rightarrow> nodes p1
      | Some k \<Rightarrow>
          (case stop_throws e2 of
             Some x \<Rightarrow> nodes p1
           | None \<Rightarrow> (nodes p1)[k := (if playback (nodes p1 ! k) = Started
                                      then (nodes p1 ! k)\<lparr>playback := Stopped\<rparr>
                                      else nodes p1 ! k)]))"
    by (rule stopPlayback_returns[of e2 p1]) blast
  have a: "nodes p2 = nodes p1" using p2(3) p1(2) by simp
  have b: "stop_throws e1 \<noteq> None \<longrightarrow> nodes p1 = nodes p"
    using p1(3) by (auto split: option.splits)
  have c: "sourceRef p = None \<longrightarrow> nodes p1 = nodes p"
    using p1(3) by simp
  show ?thesis
    by (rule exI[of _ p1], rule exI[of _ p2]) (use p1(1,2) p2(1,2) a b c in simp)
qed

theorem stopPlayback_twice_no_error_witness:
  "stop_throws ((sample_env 2)\<lparr>stop_throws := Some InvalidStateError\<rparr>) \<noteq> None
   \<and> sourceRef (dispatch_ended 0 (buffer_played_out 0 sample_playing)) = Some 0
   \<and> \<not> isl (stopPlayback ((sample_env 2)\<lparr>stop_throws := Some InvalidStateError\<rparr>)
               (dispatch_ended 0 (buffer_played_out 0 sample_playing)))
   \<and> nodes (projr (stopPlayback ((sample_env 2)\<lparr>stop_throws := Some InvalidStateError\<rparr>)
               (dispatch_ended 0 (buffer_played_out 0 sample_playing))))
       = nodes (dispatch_ended 0 (buffer_played_out 0 sample_playing))
   \<and> \<not> isl (stopPlayback ((sample_env 2)\<lparr>stop_throws := Some InvalidStateError\<rparr>)
               (projr (stopPlayback ((sample_env 2)\<lparr>stop_throws := Some InvalidStateError\<rparr>)
                  (dispatch_ended 0 (buffer_played_out 0 sample_playing)))))"
proof -
  let ?e = "(sample_env 2)\<lparr>stop_throws := Some InvalidStateError\<rparr>"
  let ?p = "dispatch_ended 0 (buffer_played_out 0 sample_playing)"
  have h: "stop_throws ?e \<noteq> None" by simp
  have s: "sourceRef ?p = Some 0"
    by (simp add: dispatch_ended_def buffer_played_out_def Let_def ended_handler_def
        setCurrentTime_def sample_playing_fields)
  obtain p1 p2 where "stopPlayback ?e ?p = Inr p1" "stopPlayback ?e p1 = Inr p2"
    "stop_throws ?e \<noteq> None \<longrightarrow> nodes p1 = nodes ?p"
    using stopPlayback_twice_no_error[of ?e ?p ?e] by blast
  then show ?thesis using h s by simp
qed

end
